theory Spec2Isabelle
  imports Main "HOL-Library.Char_ord" "HOL-Library.List_Lexorder" "HOL-Library.Multiset"
begin

section \<open>Python strings\<close>

text \<open>
  Strings are character lists. The string methods the two scripts call are written out
  as recursive functions: \<open>s.startswith(p)\<close>, \<open>sub in s\<close>, \<open>s.replace(old, new)\<close>,
  \<open>s.split(sep)\<close> for a one-character separator, \<open>sep.join(xs)\<close>, \<open>s.lower()\<close>
  (on the ASCII letters) and \<open>os.path.basename\<close> (POSIX: the text after the last slash).
\<close>

fun startswith :: "string \<Rightarrow> string \<Rightarrow> bool" where
  "startswith s [] = True"
| "startswith [] (p # ps) = False"
| "startswith (c # cs) (p # ps) = (c = p \<and> startswith cs ps)"

fun py_in :: "string \<Rightarrow> string \<Rightarrow> bool" where
  "py_in sub [] = (sub = [])"
| "py_in sub (c # cs) = (startswith (c # cs) sub \<or> py_in sub cs)"

fun replace :: "string \<Rightarrow> string \<Rightarrow> string \<Rightarrow> string" where
  "replace old new [] = (if old = [] then new else [])"
| "replace old new (c # cs) =
     (if old = [] then new @ c # replace old new cs
      else if startswith (c # cs) old then new @ replace old new (drop (length old - 1) cs)
      else c # replace old new cs)"

fun split_on :: "char \<Rightarrow> string \<Rightarrow> string list" where
  "split_on sep [] = [[]]"
| "split_on sep (c # cs) =
     (if c = sep then [] # split_on sep cs
      else (case split_on sep cs of
              [] \<Rightarrow> [[c]]
            | w # ws \<Rightarrow> (c # w) # ws))"

fun join :: "string \<Rightarrow> string list \<Rightarrow> string" where
  "join sep [] = []"
| "join sep [x] = x"
| "join sep (x # y # ys) = x @ sep @ join sep (y # ys)"

definition basename :: "string \<Rightarrow> string" where
  "basename p = rev (takeWhile (\<lambda>c. c \<noteq> CHR ''/'') (rev p))"

definition lower_char :: "char \<Rightarrow> char" where
  "lower_char c =
     (if CHR ''A'' \<le> c \<and> c \<le> CHR ''Z'' then char_of (of_char c + (32::nat)) else c)"

definition lower :: "string \<Rightarrow> string" where
  "lower s = map lower_char s"

definition digit_char :: "nat \<Rightarrow> char" where
  "digit_char d = char_of (48 + d)"

fun str_nat :: "nat \<Rightarrow> string" where
  "str_nat n = (if n < 10 then [digit_char n] else str_nat (n div 10) @ [digit_char (n mod 10)])"

definition str_int :: "int \<Rightarrow> string" where
  "str_int i = (if i < 0 then CHR ''-'' # str_nat (nat (- i)) else str_nat (nat i))"

text \<open>
  The text of \<open>str(b)\<close> for a \<open>bytes\<close> value, which is its \<open>repr\<close>: the prefix \<open>b\<close>,
  a quote (a double quote when the bytes hold a single quote and no double quote, a
  single quote otherwise), and each byte as itself when it is printable ASCII, with a
  backslash before the quote and the backslash, as the two-character escape of a tab, a
  newline or a carriage return, and as a hexadecimal escape otherwise.
\<close>

definition hex_digit :: "nat \<Rightarrow> char" where
  "hex_digit d = (if d < 10 then char_of (48 + d) else char_of (87 + d))"

definition bytes_repr_char :: "char \<Rightarrow> char \<Rightarrow> string" where
  "bytes_repr_char quote c =
     (if c = quote \<or> c = CHR 0x5C then [CHR 0x5C, c]
      else if c = CHR 0x09 then [CHR 0x5C, CHR ''t'']
      else if c = CHR 0x0A then [CHR 0x5C, CHR ''n'']
      else if c = CHR 0x0D then [CHR 0x5C, CHR ''r'']
      else if (of_char c :: nat) < 32 \<or> (of_char c :: nat) \<ge> 127
      then [CHR 0x5C, CHR ''x'', hex_digit (of_char c div 16), hex_digit (of_char c mod 16)]
      else [c])"

definition bytes_repr :: "string \<Rightarrow> string" where
  "bytes_repr b =
     (let quote = (if CHR 0x27 \<in> set b \<and> CHR 0x22 \<notin> set b then CHR 0x22 else CHR 0x27)
      in CHR ''b'' # quote # concat (map (bytes_repr_char quote) b) @ [quote])"


section \<open>Python values, errors and printed lines\<close>

text \<open>
  A video reference has no fixed shape (\<open>video_item: Any\<close>). The values the resolver
  tells apart are:
  \<^item> \<open>None\<close>, a \<open>str\<close> and a \<open>bytes\<close> value;
  \<^item> a \<open>dict\<close> with string keys, with the text of \<open>str(d)\<close>, which Python computes
    from its \<open>repr\<close>;
  \<^item> a \<open>list\<close>, \<open>tuple\<close>, \<open>set\<close> or other container of elements without keys, with
    its text: \<open>x in c\<close> compares \<open>x\<close> with the elements, \<open>c['key']\<close> is a
    \<open>TypeError\<close>;
  \<^item> any other object, given by what the resolver can observe of it: its attributes
    (looked up by \<open>hasattr\<close> and by attribute access), its truth value, the text of
    \<open>str(obj)\<close>, the table of its items when it is a mapping that is no \<open>dict\<close> (for
    \<open>key in obj\<close> and \<open>obj[key]\<close>; without one both are a \<open>TypeError\<close>), and what
    \<open>os.fspath(obj)\<close> gives when it is an \<open>os.PathLike\<close>.
  The built-in types have none of the attributes the scripts ask for. Attribute values
  are data: an object has no methods of its own, it compares unequal to every string,
  and its special methods do not raise.
\<close>

datatype path_text = StrPath string | BytesPath string

datatype pyval =
    PNone
  | PStr string
  | PBytes string
  | PDict "(string \<times> pyval) list" string
  | PSeq "pyval list" string
  | PObj "(string \<times> pyval) list" bool string "(string \<times> pyval) list option"
      "path_text option"

datatype py_error =
    AttributeError
  | TypeError
  | KeyError string
  | SplitNotFound string "string list"
  | VideoColumnNotFound string "string list"
  | FileNotFoundError string
  | NotADirectoryError string
  | OtherError string

text \<open>
  \<open>SplitNotFound split available\<close> is
  \<open>ValueError(f"Split '{split}' not found. Available splits: {available_splits}")\<close>,
  \<open>VideoColumnNotFound column columns\<close> is the \<open>ValueError\<close> of the column check;
  \<open>OtherError\<close> is an exception of an external collaborator (dataset loader, file
  system, JSON codec). Every error of this type is a subclass of \<open>Exception\<close>.
\<close>

datatype log_line =
    WarnNoFilename py_error
  | WarnLabelColumn string "string list"
  | ProcessingItems nat
  | ProcessingStreaming
  | UsingOverrideLabel string
  | ReachedMaxItems int
  | ProcessedItems nat
  | ErrorProcessingItem nat py_error

fun attrs :: "pyval \<Rightarrow> (string \<times> pyval) list" where
  "attrs (PObj as t r tbl fp) = as"
| "attrs v = []"

definition attr :: "pyval \<Rightarrow> string \<Rightarrow> pyval option" where
  "attr v name = map_of (attrs v) name"

definition hasattr :: "pyval \<Rightarrow> string \<Rightarrow> bool" where
  "hasattr v name = (attr v name \<noteq> None)"

fun attr_path :: "pyval \<Rightarrow> string list \<Rightarrow> pyval option" where
  "attr_path v [] = Some v"
| "attr_path v (name # names) =
     (case attr v name of None \<Rightarrow> None | Some w \<Rightarrow> attr_path w names)"

fun as_dict :: "pyval option \<Rightarrow> (string \<times> pyval) list option" where
  "as_dict (Some (PDict d r)) = Some d"
| "as_dict v = None"

fun py_str :: "pyval \<Rightarrow> string" where
  "py_str PNone = ''None''"
| "py_str (PStr s) = s"
| "py_str (PBytes b) = bytes_repr b"
| "py_str (PDict d r) = r"
| "py_str (PSeq xs r) = r"
| "py_str (PObj as t r tbl fp) = r"

fun truthy :: "pyval \<Rightarrow> bool" where
  "truthy PNone = False"
| "truthy (PStr s) = (s \<noteq> [])"
| "truthy (PBytes b) = (b \<noteq> [])"
| "truthy (PDict d r) = (d \<noteq> [])"
| "truthy (PSeq xs r) = (xs \<noteq> [])"
| "truthy (PObj as t r tbl fp) = t"

text \<open>
  \<open>os.fspath\<close> accepts a \<open>str\<close>, a \<open>bytes\<close> value and an \<open>os.PathLike\<close> object, and
  raises \<open>TypeError\<close> on anything else. \<open>os.path.basename\<close> calls it and returns the
  text after the last slash, as a \<open>str\<close> or as \<open>bytes\<close>.
\<close>

fun os_fspath :: "pyval \<Rightarrow> py_error + path_text" where
  "os_fspath (PStr s) = Inr (StrPath s)"
| "os_fspath (PBytes b) = Inr (BytesPath b)"
| "os_fspath (PObj as t r tbl (Some p)) = Inr p"
| "os_fspath v = Inl TypeError"

definition os_basename :: "pyval \<Rightarrow> py_error + pyval" where
  "os_basename v =
     (case os_fspath v of
        Inl e \<Rightarrow> Inl e
      | Inr (StrPath s) \<Rightarrow> Inr (PStr (basename s))
      | Inr (BytesPath b) \<Rightarrow> Inr (PBytes (basename b)))"

text \<open>\<open>key in container\<close> and \<open>container[key]\<close> for a string key.\<close>

fun py_contains :: "string \<Rightarrow> pyval \<Rightarrow> py_error + bool" where
  "py_contains key (PDict d r) = Inr (map_of d key \<noteq> None)"
| "py_contains key (PStr s) = Inr (py_in key s)"
| "py_contains key (PSeq xs r) = Inr (PStr key \<in> set xs)"
| "py_contains key (PObj as t r (Some tbl) fp) = Inr (map_of tbl key \<noteq> None)"
| "py_contains key v = Inl TypeError"

fun py_getitem :: "pyval \<Rightarrow> string \<Rightarrow> py_error + pyval" where
  "py_getitem (PDict d r) key =
     (case map_of d key of None \<Rightarrow> Inl (KeyError key) | Some v \<Rightarrow> Inr v)"
| "py_getitem (PObj as t r (Some tbl) fp) key =
     (case map_of tbl key of None \<Rightarrow> Inl (KeyError key) | Some v \<Rightarrow> Inr v)"
| "py_getitem v key = Inl TypeError"

text \<open>
  Calling the method \<open>startswith\<close> of \<open>str\<close> with a string argument on a value that is
  not a \<open>str\<close>: \<open>bytes\<close> has the method and rejects the argument, an attribute of
  that name is data and cannot be called, and any other value has no such attribute.
\<close>

fun is_bytes :: "pyval \<Rightarrow> bool" where
  "is_bytes (PBytes b) = True"
| "is_bytes v = False"

definition no_str_method :: "pyval \<Rightarrow> string \<Rightarrow> py_error" where
  "no_str_method v name = (if is_bytes v \<or> hasattr v name then TypeError else AttributeError)"

section \<open>The Reference Resolver: \<open>get_video_url_from_hf\<close>\<close>

definition is_url :: "string \<Rightarrow> bool" where
  "is_url s = (startswith s ''http://'' \<or> startswith s ''https://'')"

definition placeholder :: "int \<Rightarrow> string" where
  "placeholder file_index = ''video_'' @ str_int file_index @ ''.mp4''"

definition resolve_url :: "string \<Rightarrow> string \<Rightarrow> string" where
  "resolve_url dataset_path filename =
     ''https://huggingface.co/datasets/'' @ dataset_path @ ''/resolve/main/'' @ filename"

text \<open>
  The if/elif chain either returns at once, or leaves a value in \<open>filename\<close> (initially
  \<open>None\<close>) for the code after the chain, or raises.
\<close>

datatype outcome = Return pyval | Filename pyval | Raise py_error

definition basename_of :: "pyval \<Rightarrow> outcome" where
  "basename_of p = (case os_basename p of Inl e \<Rightarrow> Raise e | Inr f \<Rightarrow> Filename f)"

text \<open>Lines 36 to 54: the branch of an object whose \<open>_hf_encoded\<close> is a dict.\<close>

definition hf_encoded_path :: "(string \<times> pyval) list \<Rightarrow> outcome" where
  "hf_encoded_path enc =
     (let hf_path = (case map_of enc ''path'' of None \<Rightarrow> PStr [] | Some v \<Rightarrow> v) in
      case hf_path of
        PStr p \<Rightarrow>
          if startswith p ''hf://'' then
            (let path_parts = split_on CHR ''/'' (replace ''hf://'' [] p) in
             if length path_parts \<ge> 3 then
               (let dataset_path = join ''/'' (butlast (tl path_parts));
                    filename = last path_parts;
                    dataset_path' =
                      (if CHR ''@'' \<in> set dataset_path
                       then (case split_on CHR ''@'' dataset_path of [] \<Rightarrow> [] | w # ws \<Rightarrow> w)
                       else dataset_path)
                in Return (PStr (resolve_url dataset_path' filename)))
             else Filename PNone)
          else if p \<noteq> [] then Filename (PStr (basename p))
          else Filename PNone
      | v \<Rightarrow> Raise (no_str_method v ''startswith''))"

text \<open>Lines 68 to 79: the body of the \<open>try\<close>, giving the value of \<open>filename\<close> after it.\<close>

definition try_container :: "pyval \<Rightarrow> py_error + pyval" where
  "try_container container =
     (case attr container ''name'' of
        Some n \<Rightarrow> os_basename n
      | None \<Rightarrow>
     (case attr container ''metadata'' of
        Some metadata \<Rightarrow>
          (case py_contains ''filename'' metadata of
             Inl e \<Rightarrow> Inl e
           | Inr b \<Rightarrow> if b then py_getitem metadata ''filename'' else Inr PNone)
      | None \<Rightarrow>
     (case attr container ''file'' of
        Some file \<Rightarrow>
          (case attr file ''name'' of
             Some n \<Rightarrow> os_basename n
           | None \<Rightarrow> Inr (PStr (py_str file)))
      | None \<Rightarrow> Inr PNone)))"

text \<open>Lines 59 to 82: the branch of an object with \<open>container\<close> and \<open>_hf_encoded\<close>.\<close>

definition container_filename :: "pyval \<Rightarrow> pyval \<Rightarrow> int \<Rightarrow> log_line list \<times> outcome" where
  "container_filename video_item container file_index =
     (case attr container ''name'' of
        Some path \<Rightarrow> ([], basename_of path)
      | None \<Rightarrow>
     (case attr_path video_item [''_c'', ''file'', ''name''] of
        Some path \<Rightarrow> ([], basename_of path)
      | None \<Rightarrow>
     (case try_container container of
        Inr filename \<Rightarrow> ([], Filename filename)
      | Inl e \<Rightarrow> ([WarnNoFilename e], Filename (PStr (placeholder file_index))))))"

text \<open>Lines 96 to 99: the \<open>src\<close> attribute.\<close>

definition src_value :: "pyval \<Rightarrow> outcome" where
  "src_value src =
     (case src of
        PStr s \<Rightarrow> if is_url s then Return src else Filename (PStr (basename s))
      | v \<Rightarrow> Filename (PStr (basename (py_str v))))"

text \<open>Lines 109 to 117: the loop over the keys of a dict reference.\<close>

fun dict_keys :: "(string \<times> pyval) list \<Rightarrow> string list \<Rightarrow> outcome" where
  "dict_keys d [] = Filename PNone"
| "dict_keys d (key # keys) =
     (case map_of d key of
        Some (PStr v) \<Rightarrow> if is_url v then Return (PStr v) else Filename (PStr (basename v))
      | _ \<Rightarrow> dict_keys d keys)"

text \<open>Lines 34 to 124: the chain.\<close>

definition extract_filename :: "pyval \<Rightarrow> int \<Rightarrow> log_line list \<times> outcome" where
  "extract_filename video_item file_index =
     (case as_dict (attr video_item ''_hf_encoded'') of
        Some enc \<Rightarrow> ([], hf_encoded_path enc)
      | None \<Rightarrow>
     (case (if hasattr video_item ''_hf_encoded'' then attr video_item ''container'' else None) of
        Some container \<Rightarrow> container_filename video_item container file_index
      | None \<Rightarrow>
     (case attr video_item ''path'' of
        Some p \<Rightarrow> ([], basename_of p)
      | None \<Rightarrow>
     (case attr video_item ''filename'' of
        Some f \<Rightarrow> ([], Filename f)
      | None \<Rightarrow>
     (case attr video_item ''name'' of
        Some n \<Rightarrow> ([], Filename n)
      | None \<Rightarrow>
     (case attr video_item ''url'' of
        Some u \<Rightarrow> ([], Return u)
      | None \<Rightarrow>
     (case attr video_item ''src'' of
        Some src \<Rightarrow> ([], src_value src)
      | None \<Rightarrow>
     (case video_item of
        PStr s \<Rightarrow> ([], Filename (PStr (if startswith s ''/'' then basename s else s)))
      | PDict d r \<Rightarrow> ([], dict_keys d [''url'', ''src'', ''path'', ''filename'', ''name''])
      | v \<Rightarrow>
          (let str_item = py_str v in
           ([], Filename (PStr (if CHR ''/'' \<in> set str_item then basename str_item
                                else str_item))))))))))))"

text \<open>Lines 127 to 135: the code after the chain.\<close>

definition not_none_sentinel :: "pyval \<Rightarrow> bool" where
  "not_none_sentinel filename =
     (filename \<noteq> PStr ''None'' \<and> \<not> py_in ''<none>'' (lower (py_str filename)))"

definition finish :: "pyval \<Rightarrow> string \<Rightarrow> int \<Rightarrow> pyval" where
  "finish filename dataset_name file_index =
     (if truthy filename \<and> dataset_name \<noteq> [] \<and> not_none_sentinel filename
      then PStr (resolve_url dataset_name (py_str filename))
      else if truthy filename then filename
      else PStr (placeholder file_index))"

definition is_url_str :: "pyval \<Rightarrow> bool" where
  "is_url_str v = (case v of PStr s \<Rightarrow> is_url s | _ \<Rightarrow> False)"

definition get_video_url_from_hf ::
    "pyval \<Rightarrow> string \<Rightarrow> int \<Rightarrow> log_line list \<times> (py_error + pyval)" where
  "get_video_url_from_hf video_item dataset_name file_index =
     (if is_url_str video_item then ([], Inr video_item)
      else (case extract_filename video_item file_index of
              (out, Return v) \<Rightarrow> (out, Inr v)
            | (out, Raise e) \<Rightarrow> (out, Inl e)
            | (out, Filename filename) \<Rightarrow>
                (out, Inr (finish filename dataset_name file_index))))"

section \<open>The Manifest Builder: \<open>extract_videos_from_dataset\<close>\<close>

text \<open>
  The command-line arguments of the dataset-mode script, as \<open>argparse\<close> returns them.
  A field whose name is also the name of a parameter of \<open>extract_videos_from_dataset\<close>
  has the suffix \<open>_arg\<close>: \<open>label_arg\<close> is \<open>args.label\<close>, \<open>split_arg\<close> is \<open>args.split\<close>.
\<close>

record args =
  database :: "string option"
  "output" :: string
  label_arg :: string
  change_label_arg :: "string option"
  video_column_arg :: string
  label_column_arg :: "string option"
  split_arg :: string
  subset :: "string option"
  streaming :: bool
  max_items_arg :: "int option"

text \<open>
  A manifest entry is the dict \<open>{"video": ..., "label": ...}\<close>. The video is whatever
  the resolver returned; the label is always a string.
\<close>

record entry =
  video :: pyval
  label :: string

text \<open>
  A dataset record is a dict from field names to values. The data of one split is the
  list of its records in iteration order, with the attribute \<open>column_names\<close> when the
  object has it (a list of names, or \<open>None\<close> as a streaming dataset without known
  features has it) and a flag for \<open>__len__\<close>. A loaded dataset is either
  a dict from split names to such data, or the data of one split.
\<close>

type_synonym record_item = "(string \<times> pyval) list"

record data_source =
  column_names :: "string list option option"
  has_len :: bool
  items :: "record_item list"

datatype dataset = DatasetDict "(string \<times> data_source) list" | Dataset data_source

text \<open>Truth value of an \<open>Optional[str]\<close> and of an \<open>Optional[int]\<close>.\<close>

definition str_truthy :: "string option \<Rightarrow> bool" where
  "str_truthy x = (case x of None \<Rightarrow> False | Some s \<Rightarrow> s \<noteq> [])"

definition int_truthy :: "int option \<Rightarrow> bool" where
  "int_truthy x = (case x of None \<Rightarrow> False | Some n \<Rightarrow> n \<noteq> 0)"

text \<open>Lines 164 to 170: the split.\<close>

definition select_split :: "dataset \<Rightarrow> string \<Rightarrow> py_error + data_source" where
  "select_split dataset split =
     (case dataset of
        DatasetDict d \<Rightarrow>
          (case map_of d split of
             None \<Rightarrow> Inl (SplitNotFound split (map fst d))
           | Some data \<Rightarrow> Inr data)
      | Dataset data \<Rightarrow> Inr data)"

text \<open>Lines 173 to 179: the column check, giving the label column to use.\<close>

definition check_columns ::
    "data_source \<Rightarrow> string \<Rightarrow> string option \<Rightarrow> log_line list \<times> (py_error + string option)" where
  "check_columns data video_column label_column =
     (case column_names data of
        None \<Rightarrow> ([], Inr label_column)
      | Some None \<Rightarrow> ([], Inl TypeError)
      | Some (Some cols) \<Rightarrow>
          if video_column \<notin> set cols then ([], Inl (VideoColumnNotFound video_column cols))
          else (case label_column of
                  Some c \<Rightarrow>
                    if c \<noteq> [] \<and> c \<notin> set cols then ([WarnLabelColumn c cols], Inr None)
                    else ([], Inr label_column)
                | None \<Rightarrow> ([], Inr label_column)))"

text \<open>Lines 188 to 192: the override label.\<close>

definition use_label_of :: "string option \<Rightarrow> string option" where
  "use_label_of change_label = (if str_truthy change_label then change_label else None)"

text \<open>Lines 206 to 212: the label of one record.\<close>

definition item_label :: "string option \<Rightarrow> string option \<Rightarrow> string \<Rightarrow> record_item \<Rightarrow> string" where
  "item_label use_label label_column default_label item =
     (case (if str_truthy use_label then use_label else None) of
        Some l \<Rightarrow> l
      | None \<Rightarrow>
          (case (if str_truthy label_column then label_column else None) of
             Some c \<Rightarrow> (case map_of item c of Some v \<Rightarrow> py_str v | None \<Rightarrow> default_label)
           | None \<Rightarrow> default_label))"

text \<open>Lines 202 to 217: the body of the \<open>try\<close> after the limit check, for record \<open>i\<close>.\<close>

definition process_item ::
    "string \<Rightarrow> string \<Rightarrow> string option \<Rightarrow> string \<Rightarrow> string option \<Rightarrow> nat \<Rightarrow> record_item
       \<Rightarrow> log_line list \<times> (py_error + entry)" where
  "process_item dataset_name video_column label_column default_label use_label i item =
     (case map_of item video_column of
        None \<Rightarrow> ([], Inl (KeyError video_column))
      | Some video_data \<Rightarrow>
          (case get_video_url_from_hf video_data dataset_name (int i) of
             (out, Inl e) \<Rightarrow> (out, Inl e)
           | (out, Inr video_url) \<Rightarrow>
               (out, Inr \<lparr>video = video_url,
                          label = item_label use_label label_column default_label item\<rparr>)))"

text \<open>Line 197: \<open>max_items and i >= max_items\<close>.\<close>

definition limit_reached :: "int option \<Rightarrow> nat \<Rightarrow> bool" where
  "limit_reached max_items i =
     (case max_items of None \<Rightarrow> False | Some m \<Rightarrow> m \<noteq> 0 \<and> int i \<ge> m)"

text \<open>
  Lines 194 to 224: the loop \<open>for i, item in enumerate(data)\<close>, from index \<open>i\<close> on, with
  the results and the printed lines so far.
\<close>

fun items_loop ::
    "string \<Rightarrow> string \<Rightarrow> string option \<Rightarrow> int option \<Rightarrow> string \<Rightarrow> string option \<Rightarrow> nat
       \<Rightarrow> record_item list \<Rightarrow> entry list \<Rightarrow> log_line list \<Rightarrow> entry list \<times> log_line list" where
  "items_loop dataset_name video_column label_column max_items default_label use_label i
     [] results out = (results, out)"
| "items_loop dataset_name video_column label_column max_items default_label use_label i
     (item # rest) results out =
     (if limit_reached max_items i
      then (results, out @ [ReachedMaxItems (case max_items of None \<Rightarrow> 0 | Some m \<Rightarrow> m)])
      else (case process_item dataset_name video_column label_column default_label use_label
                  i item of
              (out', Inl e) \<Rightarrow>
                items_loop dataset_name video_column label_column max_items default_label
                  use_label (i + 1) rest results (out @ out' @ [ErrorProcessingItem i e])
            | (out', Inr ent) \<Rightarrow>
                items_loop dataset_name video_column label_column max_items default_label
                  use_label (i + 1) rest (results @ [ent])
                  (out @ out' @ (if (i + 1) mod 10 = 0 then [ProcessedItems (i + 1)] else []))))"

definition extract_videos_from_dataset ::
    "dataset \<Rightarrow> string \<Rightarrow> string \<Rightarrow> string option \<Rightarrow> string \<Rightarrow> int option \<Rightarrow> string
       \<Rightarrow> string option \<Rightarrow> log_line list \<times> (py_error + entry list)" where
  "extract_videos_from_dataset dataset dataset_name video_column label_column split max_items
     default_label change_label =
     (case select_split dataset split of
        Inl e \<Rightarrow> ([], Inl e)
      | Inr data \<Rightarrow>
          (case check_columns data video_column label_column of
             (out1, Inl e) \<Rightarrow> (out1, Inl e)
           | (out1, Inr label_column') \<Rightarrow>
               (let out2 = out1 @ [if has_len data then ProcessingItems (length (items data))
                                   else ProcessingStreaming];
                    use_label = use_label_of change_label;
                    out3 = out2 @ (case use_label of
                                     Some l \<Rightarrow> [UsingOverrideLabel l]
                                   | None \<Rightarrow> []);
                    (results, out4) =
                      items_loop dataset_name video_column label_column' max_items
                        default_label use_label 0 (items data) [] out3
                in (out4, Inr results))))"

section \<open>The dataset-mode command: \<open>main\<close> and the Label Rewriter\<close>

text \<open>
  What \<open>json.load\<close> returns. A number is kept as its text.
\<close>

datatype json =
    JNull
  | JBool bool
  | JNum string
  | JStr string
  | JList "json list"
  | JObj "(string \<times> json) list"

text \<open>\<open>d[key] = v\<close>: the value of an existing key is replaced where it stands.\<close>

fun dict_set :: "(string \<times> 'v) list \<Rightarrow> string \<Rightarrow> 'v \<Rightarrow> (string \<times> 'v) list" where
  "dict_set [] key v = [(key, v)]"
| "dict_set ((k, w) # kvs) key v =
     (if k = key then (k, v) # kvs else (k, w) # dict_set kvs key v)"

text \<open>Lines 262 to 263: one step of the rewriting loop.\<close>

definition rewrite_item :: "string \<Rightarrow> json \<Rightarrow> json" where
  "rewrite_item new_label item =
     (case item of
        JObj kvs \<Rightarrow>
          if map_of kvs ''label'' \<noteq> None then JObj (dict_set kvs ''label'' (JStr new_label))
          else item
      | v \<Rightarrow> item)"

text \<open>
  Lines 261 to 263: \<open>for item in json_data\<close>. A list gives its elements; a dict gives
  its keys and a string its characters, none of which is a dict, so nothing changes;
  any other value is not iterable.
\<close>

definition rewrite_labels :: "json \<Rightarrow> string \<Rightarrow> py_error + json" where
  "rewrite_labels json_data new_label =
     (case json_data of
        JList xs \<Rightarrow> Inr (JList (map (rewrite_item new_label) xs))
      | JObj kvs \<Rightarrow> Inr json_data
      | JStr s \<Rightarrow> Inr json_data
      | v \<Rightarrow> Inl TypeError)"

text \<open>
  The external collaborators of \<open>main\<close>: \<open>os.path.exists\<close>, reading the output file
  with \<open>json.load\<close>, writing it with \<open>json.dump\<close> (\<open>None\<close> when it succeeds), and
  \<open>load_dataset(database, name=subset, streaming=True)\<close>.
\<close>

datatype written = Rewritten json | Manifest "entry list"

record env =
  path_exists :: "string \<Rightarrow> bool"
  read_json :: "string \<Rightarrow> py_error + json"
  write_json :: "string \<Rightarrow> written \<Rightarrow> py_error option"
  load_dataset :: "string \<Rightarrow> string option \<Rightarrow> py_error + dataset"

text \<open>
  \<open>main\<close> gives the value the Python function returns (\<open>None\<close> when it falls off its
  end) and what it wrote to the output file.
\<close>

definition main :: "env \<Rightarrow> args \<Rightarrow> int option \<times> written option" where
  "main env a =
     (case (if str_truthy (change_label_arg a) \<and> path_exists env (output a)
            then change_label_arg a else None) of
        Some new_label \<Rightarrow>
          (case read_json env (output a) of
             Inl e \<Rightarrow> (Some 1, None)
           | Inr json_data \<Rightarrow>
               (case rewrite_labels json_data new_label of
                  Inl e \<Rightarrow> (Some 1, None)
                | Inr json_data' \<Rightarrow>
                    (case write_json env (output a) (Rewritten json_data') of
                       Some e \<Rightarrow> (Some 1, None)
                     | None \<Rightarrow> (Some 0, Some (Rewritten json_data')))))
      | None \<Rightarrow>
          (case (if str_truthy (database a) then database a else None) of
             None \<Rightarrow> (Some 1, None)
           | Some db \<Rightarrow>
               (case load_dataset env db (subset a) of
                  Inl e \<Rightarrow> (Some 1, None)
                | Inr dataset \<Rightarrow>
                    (case extract_videos_from_dataset dataset db (video_column_arg a)
                            (label_column_arg a) (split_arg a) (max_items_arg a)
                            (label_arg a) (change_label_arg a) of
                       (out, Inl e) \<Rightarrow> (Some 1, None)
                     | (out, Inr json_data) \<Rightarrow>
                         if json_data = [] then (Some 1, None)
                         else (case write_json env (output a) (Manifest json_data) of
                                 Some e \<Rightarrow> (Some 1, None)
                               | None \<Rightarrow> (None, Some (Manifest json_data)))))))"

section \<open>Directory mode: \<open>find_video_files\<close> and \<open>create_json_input\<close>\<close>

definition VIDEO_EXTENSIONS :: "string set" where
  "VIDEO_EXTENSIONS =
     {''.mp4'', ''.avi'', ''.mov'', ''.mkv'', ''.wmv'', ''.flv'', ''.webm'', ''.m4v'', ''.3gp''}"

text \<open>
  \<open>Path.suffix\<close> of \<open>pathlib\<close>: with \<open>name\<close> the last component and \<open>i\<close> the index of
  its last dot, \<open>name[i:]\<close> when \<open>0 < i < len(name) - 1\<close>, and the empty string
  otherwise.
\<close>

definition suffix :: "string \<Rightarrow> string" where
  "suffix p =
     (let name = basename p;
          after = rev (takeWhile (\<lambda>c. c \<noteq> CHR ''.'') (rev name))
      in if CHR ''.'' \<in> set name \<and> length after + 1 < length name \<and> after \<noteq> []
         then CHR ''.'' # after else [])"

text \<open>
  What the script sees of the file system at \<open>directory\<close>: nothing, something that is
  no directory, or a directory with its children in the order \<open>iterdir\<close> gives them,
  each with the text of its path and whether it is a regular file.
\<close>

record dirent =
  path :: string
  is_file :: bool

datatype fs_node = Missing | NotDirectory | Directory "dirent list"

definition is_video :: "dirent \<Rightarrow> bool" where
  "is_video e = (is_file e \<and> lower (suffix (path e)) \<in> VIDEO_EXTENSIONS)"

definition find_video_files :: "(string \<Rightarrow> fs_node) \<Rightarrow> string \<Rightarrow> py_error + string list" where
  "find_video_files fs directory =
     (case fs directory of
        Missing \<Rightarrow> Inl (FileNotFoundError directory)
      | NotDirectory \<Rightarrow> Inl (NotADirectoryError directory)
      | Directory children \<Rightarrow> Inr (sort (map path (filter is_video children))))"

definition create_json_input :: "string list \<Rightarrow> string \<Rightarrow> entry list" where
  "create_json_input video_files label =
     map (\<lambda>video_path. \<lparr>video = PStr video_path, label = label\<rparr>) video_files"
  for label

section \<open>Notions used to state the properties of the resolver\<close>

fun is_str :: "pyval \<Rightarrow> bool" where
  "is_str (PStr s) = True"
| "is_str v = False"

definition opt_all :: "('a \<Rightarrow> bool) \<Rightarrow> 'a option \<Rightarrow> bool" where
  "opt_all P x = (case x of None \<Rightarrow> True | Some y \<Rightarrow> P y)"

text \<open>A value \<open>os.path.basename\<close> accepts, and one for which it returns a \<open>str\<close>.\<close>

definition path_like :: "pyval \<Rightarrow> bool" where
  "path_like v = (case os_fspath v of Inl e \<Rightarrow> False | Inr p \<Rightarrow> True)"

definition str_path :: "pyval \<Rightarrow> bool" where
  "str_path v = (case os_fspath v of Inr (StrPath s) \<Rightarrow> True | other \<Rightarrow> False)"

text \<open>
  An outcome of the chain that is a string: a non-empty string returned at once, or a
  filename that is a string or still \<open>None\<close>. And an outcome that is an exception.
\<close>

fun str_outcome :: "outcome \<Rightarrow> bool" where
  "str_outcome (Return v) = (is_str v \<and> truthy v)"
| "str_outcome (Filename f) = (f = PNone \<or> is_str f)"
| "str_outcome (Raise e) = False"

fun is_raise :: "outcome \<Rightarrow> bool" where
  "is_raise (Raise e) = True"
| "is_raise oc = False"

text \<open>
  The value the resolver hands to \<open>os.path.basename\<close> outside the \<open>try\<close>, when the
  \<open>_hf_encoded\<close> of the reference is no dict: for an object with \<open>_hf_encoded\<close> and
  \<open>container\<close> it is \<open>container.name\<close>, or else \<open>_c.file.name\<close>; for any other
  reference it is the attribute \<open>path\<close>.
\<close>

definition path_operand :: "pyval \<Rightarrow> pyval option" where
  "path_operand v =
     (if hasattr v ''_hf_encoded'' \<and> hasattr v ''container''
      then (case attr_path v [''container'', ''name''] of
              Some n \<Rightarrow> Some n
            | None \<Rightarrow> attr_path v [''_c'', ''file'', ''name''])
      else attr v ''path'')"

text \<open>
  A reference is ill-typed when the \<open>path\<close> entry of its \<open>_hf_encoded\<close> dict is present
  and no string, or when, without such a dict, the value handed to
  \<open>os.path.basename\<close> outside the \<open>try\<close> is neither \<open>str\<close>, \<open>bytes\<close> nor path-like.
\<close>

definition ill_typed :: "pyval \<Rightarrow> bool" where
  "ill_typed v =
     (case as_dict (attr v ''_hf_encoded'') of
        Some enc \<Rightarrow> (case map_of enc ''path'' of None \<Rightarrow> False | Some p \<Rightarrow> \<not> is_str p)
      | None \<Rightarrow> (case path_operand v of None \<Rightarrow> False | Some n \<Rightarrow> \<not> path_like n))"

text \<open>
  A reference is string-valued when every value the resolver may take a name from is
  a string where it is present: the \<open>path\<close> entry of the \<open>_hf_encoded\<close> dict; the paths
  \<open>path\<close>, \<open>container.name\<close>, \<open>_c.file.name\<close> and \<open>container.file.name\<close> (a \<open>str\<close> or
  a path-like object of a \<open>str\<close> path); the attributes \<open>filename\<close> and \<open>name\<close>; the
  attribute \<open>url\<close>, which must not be empty; and the \<open>filename\<close> item of
  \<open>container.metadata\<close>.
\<close>

definition string_valued :: "pyval \<Rightarrow> bool" where
  "string_valued v =
     ((case as_dict (attr v ''_hf_encoded'') of
         Some enc \<Rightarrow> opt_all is_str (map_of enc ''path'')
       | None \<Rightarrow> True) \<and>
      opt_all str_path (attr v ''path'') \<and>
      opt_all str_path (attr_path v [''container'', ''name'']) \<and>
      opt_all str_path (attr_path v [''_c'', ''file'', ''name'']) \<and>
      opt_all str_path (attr_path v [''container'', ''file'', ''name'']) \<and>
      opt_all is_str (attr v ''filename'') \<and>
      opt_all is_str (attr v ''name'') \<and>
      opt_all (\<lambda>u. is_str u \<and> truthy u) (attr v ''url'') \<and>
      opt_all (\<lambda>m. case py_getitem m ''filename'' of Inl e \<Rightarrow> True | Inr f \<Rightarrow> is_str f)
        (attr_path v [''container'', ''metadata'']))"

section \<open>Notions used to state the properties of the loop\<close>

text \<open>
  The records the loop reaches when it starts at index \<open>i\<close> on the records \<open>xs\<close>: all
  of them without a limit (\<open>max_items\<close> is \<open>None\<close> or \<open>0\<close>), and otherwise those whose
  index is below the limit.
\<close>

definition reached :: "int option \<Rightarrow> nat \<Rightarrow> record_item list \<Rightarrow> record_item list" where
  "reached max_items i xs =
     (case max_items of
        None \<Rightarrow> xs
      | Some m \<Rightarrow> if m = 0 then xs else take (nat m - i) xs)"

text \<open>The result of the loop body on a record paired with its index.\<close>

definition record_result ::
    "string \<Rightarrow> string \<Rightarrow> string option \<Rightarrow> string \<Rightarrow> string option \<Rightarrow> nat \<times> record_item
       \<Rightarrow> py_error + entry" where
  "record_result dataset_name video_column label_column default_label use_label r =
     snd (process_item dataset_name video_column label_column default_label use_label
            (fst r) (snd r))"

section \<open>Properties of the Reference Resolver\<close>

lemma startswith_Cons_nonempty: "startswith s (p # ps) \<Longrightarrow> s \<noteq> []"
  by (cases s) simp_all

lemma is_url_nonempty: "is_url s \<Longrightarrow> s \<noteq> []"
  by (auto simp: is_url_def dest: startswith_Cons_nonempty)

lemma startswith_set: "startswith s p \<Longrightarrow> set p \<subseteq> set s"
  by (induction s p rule: startswith.induct) auto

lemma py_in_set: "py_in sub s \<Longrightarrow> set sub \<subseteq> set s"
proof (induction s)
  case Nil
  then show ?case by simp
next
  case (Cons c cs)
  from Cons.prems have "startswith (c # cs) sub \<or> py_in sub cs" by simp
  then show ?case
  proof
    assume "startswith (c # cs) sub"
    then show ?thesis by (rule startswith_set)
  next
    assume "py_in sub cs"
    then have "set sub \<subseteq> set cs" by (rule Cons.IH)
    then show ?thesis by auto
  qed
qed

lemma lower_char_lt: 
  assumes "lower_char c = CHR ''<''" shows "c = CHR ''<''"
proof (cases "CHR ''A'' \<le> c \<and> c \<le> CHR ''Z''")
  case True
  then have b: "65 \<le> (of_char c :: nat)" "(of_char c :: nat) \<le> 90"
    by (simp_all add: less_eq_char_def)
  from assms True have "char_of (of_char c + (32::nat)) = CHR ''<''"
    by (simp add: lower_char_def)
  then have "(of_char (char_of (of_char c + (32::nat)) :: char) :: nat) = of_char CHR ''<''"
    by simp
  then have "(of_char c + 32) mod 256 = (60::nat)"
    by simp
  with b show ?thesis by simp
next
  case False
  with assms show ?thesis by (simp add: lower_char_def)
qed

lemma lt_notin_lower: "CHR ''<'' \<notin> set s \<Longrightarrow> CHR ''<'' \<notin> set (lower s)"
  by (auto simp: lower_def dest: lower_char_lt [OF sym])

lemma digit_char_not_lt: "d < 10 \<Longrightarrow> digit_char d \<noteq> CHR ''<''"
proof
  assume d: "d < 10" and "digit_char d = CHR ''<''"
  then have "(of_char (char_of (48 + d) :: char) :: nat) = of_char CHR ''<''"
    by (simp add: digit_char_def)
  then have "(48 + d) mod 256 = (60::nat)" by simp
  with d show False by simp
qed

lemma str_nat_no_lt: "CHR ''<'' \<notin> set (str_nat n)"
proof (induction n rule: str_nat.induct)
  case (1 n)
  show ?case
  proof (cases "n < 10")
    case True
    then show ?thesis using digit_char_not_lt [of n] by (subst str_nat.simps) auto
  next
    case False
    with 1 have "CHR ''<'' \<notin> set (str_nat (n div 10))" by simp
    moreover have "digit_char (n mod 10) \<noteq> CHR ''<''" by (rule digit_char_not_lt) simp
    ultimately show ?thesis using False by (subst str_nat.simps) auto
  qed
qed

lemma placeholder_no_lt: "CHR ''<'' \<notin> set (placeholder i)"
  using str_nat_no_lt by (simp add: placeholder_def str_int_def)

lemma placeholder_ok: "truthy (PStr (placeholder i)) \<and> not_none_sentinel (PStr (placeholder i))"
proof -
  have "\<not> py_in ''<none>'' (lower (placeholder i))"
  proof
    assume "py_in ''<none>'' (lower (placeholder i))"
    then have "set ''<none>'' \<subseteq> set (lower (placeholder i))" by (rule py_in_set)
    then have "CHR ''<'' \<in> set (lower (placeholder i))" by simp
    with lt_notin_lower [OF placeholder_no_lt] show False by blast
  qed
  then show ?thesis by (simp add: not_none_sentinel_def placeholder_def)
qed


lemma placeholder_nonempty: "placeholder i \<noteq> []"
  by (simp add: placeholder_def)

lemma resolve_url_nonempty: "resolve_url d f \<noteq> []"
  by (simp add: resolve_url_def)

lemma finish_is_str:
  assumes "filename = PNone \<or> (\<exists>s. filename = PStr s)"
  shows "\<exists>s. s \<noteq> [] \<and> finish filename dataset_name file_index = PStr s"
  using assms placeholder_nonempty resolve_url_nonempty
  by (auto simp: finish_def)

lemma is_str_cases: "is_str v \<Longrightarrow> \<exists>s. v = PStr s"
  by (cases v) simp_all

lemma finish_str:
  assumes "f = PNone \<or> is_str f"
  shows "\<exists>s. s \<noteq> [] \<and> finish f d i = PStr s"
  using assms finish_is_str [of f d i] by (auto dest: is_str_cases)

lemma str_outcome_result:
  assumes "\<not> is_url_str v" and "extract_filename v i = (out, oc)" and "str_outcome oc"
  shows "\<exists>s. s \<noteq> [] \<and> get_video_url_from_hf v d i = (out, Inr (PStr s))"
proof (cases oc)
  case (Return u)
  with assms(3) obtain s where "u = PStr s" "s \<noteq> []"
    by (cases u) simp_all
  with assms(1,2) Return show ?thesis
    by (simp add: get_video_url_from_hf_def)
next
  case (Filename f)
  with assms(3) have "f = PNone \<or> is_str f" by simp
  from finish_str [OF this, of d i] assms(1,2) Filename show ?thesis
    by (simp add: get_video_url_from_hf_def)
next
  case (Raise e)
  with assms(3) show ?thesis by simp
qed

lemma hf_encoded_path_str:
  assumes "opt_all is_str (map_of enc ''path'')"
  shows "str_outcome (hf_encoded_path enc)"
proof (cases "map_of enc ''path''")
  case None
  then show ?thesis by (simp add: hf_encoded_path_def)
next
  case (Some p)
  with assms obtain s where "p = PStr s"
    by (auto simp: opt_all_def dest: is_str_cases)
  with Some show ?thesis
    by (simp add: hf_encoded_path_def Let_def resolve_url_def)
qed

lemma hf_encoded_path_raise:
  "is_raise (hf_encoded_path enc) \<longleftrightarrow>
     (case map_of enc ''path'' of None \<Rightarrow> False | Some p \<Rightarrow> \<not> is_str p)"
proof (cases "map_of enc ''path''")
  case None
  then show ?thesis by (simp add: hf_encoded_path_def)
next
  case (Some p)
  then show ?thesis
    by (cases p) (simp_all add: hf_encoded_path_def Let_def)
qed

lemma basename_of_str: "str_path p \<Longrightarrow> str_outcome (basename_of p)"
  by (auto simp: str_path_def basename_of_def os_basename_def
           split: sum.splits path_text.splits)

lemma basename_of_raise: "is_raise (basename_of p) \<longleftrightarrow> \<not> path_like p"
  by (auto simp: path_like_def basename_of_def os_basename_def
           split: sum.splits path_text.splits)

lemma os_basename_str: "str_path p \<Longrightarrow> os_basename p = Inr f \<Longrightarrow> is_str f"
  by (auto simp: str_path_def os_basename_def split: sum.splits path_text.splits)

lemma try_container_str:
  assumes "opt_all str_path (attr container ''name'')"
    and "opt_all str_path (attr_path container [''file'', ''name''])"
    and "opt_all (\<lambda>m. case py_getitem m ''filename'' of Inl e \<Rightarrow> True | Inr f \<Rightarrow> is_str f)
           (attr container ''metadata'')"
    and "try_container container = Inr f"
  shows "f = PNone \<or> is_str f"
  using assms
  by (auto simp: try_container_def opt_all_def
           split: option.splits sum.splits if_splits dest: os_basename_str)

lemma container_filename_str:
  assumes "opt_all str_path (attr container ''name'')"
    and "opt_all str_path (attr_path v [''_c'', ''file'', ''name''])"
    and "opt_all str_path (attr_path container [''file'', ''name''])"
    and "opt_all (\<lambda>m. case py_getitem m ''filename'' of Inl e \<Rightarrow> True | Inr f \<Rightarrow> is_str f)
           (attr container ''metadata'')"
  shows "str_outcome (snd (container_filename v container i))"
proof (cases "attr container ''name''")
  case (Some n)
  with assms(1) show ?thesis
    by (simp add: container_filename_def opt_all_def basename_of_str)
next
  case None
  show ?thesis
  proof (cases "attr_path v [''_c'', ''file'', ''name'']")
    case (Some n)
    with assms(2) None show ?thesis
      by (simp add: container_filename_def opt_all_def basename_of_str del: attr_path.simps)
  next
    case n2: None
    show ?thesis
    proof (cases "try_container container")
      case (Inl e)
      with None n2 show ?thesis
        by (simp add: container_filename_def del: attr_path.simps)
    next
      case (Inr f)
      from try_container_str [OF assms(1,3,4) Inr] None n2 Inr show ?thesis
        by (simp add: container_filename_def del: attr_path.simps)
    qed
  qed
qed

lemma container_filename_raise:
  "is_raise (snd (container_filename v container i)) \<longleftrightarrow>
     (case (case attr container ''name'' of
              Some n \<Rightarrow> Some n
            | None \<Rightarrow> attr_path v [''_c'', ''file'', ''name'']) of
        None \<Rightarrow> False
      | Some n \<Rightarrow> \<not> path_like n)"
  by (simp add: container_filename_def basename_of_raise
           split: option.splits sum.splits del: attr_path.simps)

lemma src_value_str: "str_outcome (src_value src)"
  by (cases src) (auto simp: src_value_def dest: is_url_nonempty)

lemma dict_keys_str: "str_outcome (dict_keys d keys)"
  by (induction keys) (auto split: option.splits pyval.splits dest: is_url_nonempty)

lemma str_outcome_not_raise: "str_outcome oc \<Longrightarrow> \<not> is_raise oc"
  by (cases oc) simp_all

lemma plain_value_str:
  assumes "attrs v = []"
  shows "\<exists>oc. extract_filename v i = ([], oc) \<and> str_outcome oc"
  using assms dict_keys_str
  by (cases v)
     (simp_all add: extract_filename_def attr_def hasattr_def Let_def del: dict_keys.simps)


lemma attr_path_single: "attr_path v [name] = attr v name"
  by (simp split: option.splits)

lemma attr_path_step: "attr v name = Some w \<Longrightarrow> attr_path v (name # names) = attr_path w names"
  by simp

lemma rest_of_chain_str:
  assumes "as_dict (attr v ''_hf_encoded'') = None"
    and "(if hasattr v ''_hf_encoded'' then attr v ''container'' else None) = None"
    and "attr v ''path'' = None"
    and "opt_all is_str (attr v ''filename'')"
    and "opt_all is_str (attr v ''name'')"
    and "opt_all (\<lambda>u. is_str u \<and> truthy u) (attr v ''url'')"
  shows "str_outcome (snd (extract_filename v i))"
proof -
  have t: "str_outcome (snd (case v of
        PStr s \<Rightarrow> ([], Filename (PStr (if startswith s ''/'' then basename s else s)))
      | PDict d r \<Rightarrow> ([], dict_keys d [''url'', ''src'', ''path'', ''filename'', ''name''])
      | v \<Rightarrow>
          (let str_item = py_str v in
           ([], Filename (PStr (if CHR ''/'' \<in> set str_item then basename str_item
                                else str_item))))))"
    using dict_keys_str by (cases v) (simp_all add: Let_def del: dict_keys.simps)
  show ?thesis
    unfolding extract_filename_def assms(1,2,3) option.case
    using assms(4,5,6) t src_value_str
    by (auto simp: opt_all_def split: option.splits simp del: dict_keys.simps)
qed

lemma rest_of_chain_no_raise:
  assumes "as_dict (attr v ''_hf_encoded'') = None"
    and "(if hasattr v ''_hf_encoded'' then attr v ''container'' else None) = None"
    and "attr v ''path'' = None"
  shows "\<not> is_raise (snd (extract_filename v i))"
proof -
  have t: "\<not> is_raise (snd (case v of
        PStr s \<Rightarrow> ([], Filename (PStr (if startswith s ''/'' then basename s else s)))
      | PDict d r \<Rightarrow> ([], dict_keys d [''url'', ''src'', ''path'', ''filename'', ''name''])
      | v \<Rightarrow>
          (let str_item = py_str v in
           ([], Filename (PStr (if CHR ''/'' \<in> set str_item then basename str_item
                                else str_item))))))"
    using str_outcome_not_raise [OF dict_keys_str]
    by (cases v) (simp_all add: Let_def del: dict_keys.simps)
  show ?thesis
    unfolding extract_filename_def assms(1,2,3) option.case
    using t str_outcome_not_raise [OF src_value_str]
    by (auto split: option.splits simp del: dict_keys.simps)
qed

lemma extract_filename_str:
  assumes "string_valued v"
  shows "str_outcome (snd (extract_filename v i))"
proof (cases "as_dict (attr v ''_hf_encoded'')")
  case (Some enc)
  with assms have "opt_all is_str (map_of enc ''path'')"
    by (simp add: string_valued_def)
  then show ?thesis
    using Some by (simp add: extract_filename_def hf_encoded_path_str)
next
  case None
  show ?thesis
  proof (cases "if hasattr v ''_hf_encoded'' then attr v ''container'' else None")
    case (Some container)
    then have c: "attr v ''container'' = Some container"
      by (simp split: if_splits)
    from assms c have "str_outcome (snd (container_filename v container i))"
      by (intro container_filename_str)
         (simp_all add: string_valued_def attr_path_step attr_path_single
            del: attr_path.simps)
    with None Some show ?thesis
      by (simp add: extract_filename_def)
  next
    case n2: None
    show ?thesis
    proof (cases "attr v ''path''")
      case (Some p)
      with assms have "str_path p"
        by (simp add: string_valued_def opt_all_def)
      with None n2 Some show ?thesis
        by (simp add: extract_filename_def basename_of_str)
    next
      case n3: None
      from assms show ?thesis
        by (intro rest_of_chain_str [OF None n2 n3]) (simp_all add: string_valued_def)
    qed
  qed
qed

lemma extract_filename_raise: "is_raise (snd (extract_filename v i)) \<longleftrightarrow> ill_typed v"
proof (cases "as_dict (attr v ''_hf_encoded'')")
  case (Some enc)
  then show ?thesis
    by (simp add: extract_filename_def ill_typed_def hf_encoded_path_raise)
next
  case None
  show ?thesis
  proof (cases "if hasattr v ''_hf_encoded'' then attr v ''container'' else None")
    case (Some container)
    then have c: "attr v ''container'' = Some container" and h: "hasattr v ''_hf_encoded''"
      by (simp_all split: if_splits)
    from c have hc: "hasattr v ''container''" by (simp add: hasattr_def)
    have "path_operand v =
            (case attr container ''name'' of
               Some n \<Rightarrow> Some n
             | None \<Rightarrow> attr_path v [''_c'', ''file'', ''name''])"
      using c h hc
      by (simp add: path_operand_def attr_path_step attr_path_single del: attr_path.simps)
    with None Some show ?thesis
      by (simp add: extract_filename_def ill_typed_def container_filename_raise
               del: attr_path.simps)
  next
    case n2: None
    then have po: "path_operand v = attr v ''path''"
      by (auto simp: path_operand_def hasattr_def split: if_splits)
    show ?thesis
    proof (cases "attr v ''path''")
      case (Some p)
      with None n2 po show ?thesis
        by (simp add: extract_filename_def ill_typed_def basename_of_raise)
    next
      case n3: None
      with rest_of_chain_no_raise [OF None n2 n3, of i] None po show ?thesis
        by (simp add: ill_typed_def)
    qed
  qed
qed

lemma is_url_str_plain: "is_url_str v \<Longrightarrow> \<exists>s. v = PStr s \<and> is_url s"
  by (cases v) (simp_all add: is_url_str_def)

lemma resolver_raise_iff:
  "(\<exists>e. snd (get_video_url_from_hf v d i) = Inl e) \<longleftrightarrow> ill_typed v"
proof (cases "is_url_str v")
  case True
  then obtain s where "v = PStr s" by (auto dest: is_url_str_plain)
  with True show ?thesis
    by (simp add: get_video_url_from_hf_def ill_typed_def path_operand_def attr_def hasattr_def)
next
  case False
  obtain out oc where e: "extract_filename v i = (out, oc)"
    by (cases "extract_filename v i")
  have "(\<exists>e. snd (get_video_url_from_hf v d i) = Inl e) \<longleftrightarrow> is_raise oc"
    using False e by (cases oc) (simp_all add: get_video_url_from_hf_def)
  with extract_filename_raise [of v i] e show ?thesis by simp
qed

lemma resolver_string_valued:
  assumes "string_valued v"
  shows "\<exists>s. s \<noteq> [] \<and> snd (get_video_url_from_hf v d i) = Inr (PStr s)"
proof (cases "is_url_str v")
  case True
  then obtain s where "v = PStr s" "is_url s" by (auto dest: is_url_str_plain)
  with True show ?thesis
    by (auto simp: get_video_url_from_hf_def dest: is_url_nonempty)
next
  case False
  obtain out oc where e: "extract_filename v i = (out, oc)"
    by (cases "extract_filename v i")
  with extract_filename_str [OF assms, of i] have "str_outcome oc" by simp
  from str_outcome_result [OF False e this, of d] show ?thesis by auto
qed

lemma resolver_plain:
  assumes "attrs v = []"
  shows "\<exists>s. s \<noteq> [] \<and> get_video_url_from_hf v d i = ([], Inr (PStr s))"
proof (cases "is_url_str v")
  case True
  then obtain s where "v = PStr s" "is_url s" by (auto dest: is_url_str_plain)
  with True show ?thesis
    by (auto simp: get_video_url_from_hf_def dest: is_url_nonempty)
next
  case False
  from plain_value_str [OF assms, of i] obtain oc where
    "extract_filename v i = ([], oc)" "str_outcome oc" by blast
  from str_outcome_result [OF False this, of d] show ?thesis .
qed


lemma guarded_path_chain:
  assumes "attr video_item ''_hf_encoded'' = Some h" and "as_dict (Some h) = None"
    and "attr video_item ''container'' = Some container"
    and "attr container ''name'' = None"
    and "attr_path video_item [''_c'', ''file'', ''name''] = None"
  shows "\<not> is_url_str video_item"
    and "extract_filename video_item file_index =
           (case try_container container of
              Inr filename \<Rightarrow> ([], Filename filename)
            | Inl e \<Rightarrow> ([WarnNoFilename e], Filename (PStr (placeholder file_index))))"
proof -
  show "\<not> is_url_str video_item"
    using assms(1) by (cases video_item) (simp_all add: is_url_str_def attr_def)
  show "extract_filename video_item file_index =
           (case try_container container of
              Inr filename \<Rightarrow> ([], Filename filename)
            | Inl e \<Rightarrow> ([WarnNoFilename e], Filename (PStr (placeholder file_index))))"
    using assms
    by (simp add: extract_filename_def hasattr_def container_filename_def
          del: attr_path.simps)
qed

text \<open>
  Claim C1, as amended. The resolver raises exactly when the reference is ill-typed:
  the \<open>path\<close> entry of its \<open>_hf_encoded\<close> dict is present and no string, or the value it
  hands to \<open>os.path.basename\<close> outside the \<open>try\<close> is neither \<open>str\<close>, \<open>bytes\<close> nor
  path-like. For every other reference, every dataset identifier and every index it
  returns. Its result is a non-empty string for every string-valued reference, and in
  particular for every reference that has none of the probed attributes (every \<open>str\<close>,
  \<open>bytes\<close>, \<open>dict\<close>, list, \<open>None\<close>, every other attribute-less object), for which it
  prints nothing. On the nested-object path of lines 65 to 82 (an object with
  \<open>_hf_encoded\<close> that is no dict and a \<open>container\<close> without \<open>name\<close>, and no
  \<open>_c.file.name\<close>), an error raised inside the \<open>try\<close> is logged as a warning and the
  placeholder \<open>video_<index>.mp4\<close> is substituted; when the \<open>try\<close> raises nothing, no
  warning is printed and the filename it found is used.
\<close>

theorem resolver_total_cases:
  "((\<exists>e. snd (get_video_url_from_hf video_item dataset_name file_index) = Inl e) \<longleftrightarrow>
      ill_typed video_item) \<and>
   (string_valued video_item \<longrightarrow>
      (\<exists>s. s \<noteq> [] \<and>
         snd (get_video_url_from_hf video_item dataset_name file_index) = Inr (PStr s))) \<and>
   (attrs video_item = [] \<longrightarrow>
      (\<exists>s. s \<noteq> [] \<and>
         get_video_url_from_hf video_item dataset_name file_index = ([], Inr (PStr s)))) \<and>
   (attr video_item ''_hf_encoded'' = Some h \<and> as_dict (Some h) = None \<and>
    attr video_item ''container'' = Some container \<and> attr container ''name'' = None \<and>
    attr_path video_item [''_c'', ''file'', ''name''] = None \<and>
    try_container container = Inl e \<longrightarrow>
      get_video_url_from_hf video_item dataset_name file_index =
        ([WarnNoFilename e],
         Inr (PStr (if dataset_name = [] then placeholder file_index
                    else resolve_url dataset_name (placeholder file_index))))) \<and>
   (attr video_item ''_hf_encoded'' = Some h \<and> as_dict (Some h) = None \<and>
    attr video_item ''container'' = Some container \<and> attr container ''name'' = None \<and>
    attr_path video_item [''_c'', ''file'', ''name''] = None \<and>
    try_container container = Inr filename \<longrightarrow>
      get_video_url_from_hf video_item dataset_name file_index =
        ([], Inr (finish filename dataset_name file_index)))"
proof (intro conjI impI)
  show "(\<exists>e. snd (get_video_url_from_hf video_item dataset_name file_index) = Inl e) \<longleftrightarrow>
          ill_typed video_item"
    by (rule resolver_raise_iff)
next
  assume "string_valued video_item"
  then show "\<exists>s. s \<noteq> [] \<and>
      snd (get_video_url_from_hf video_item dataset_name file_index) = Inr (PStr s)"
    by (rule resolver_string_valued)
next
  assume "attrs video_item = []"
  then show "\<exists>s. s \<noteq> [] \<and>
      get_video_url_from_hf video_item dataset_name file_index = ([], Inr (PStr s))"
    by (rule resolver_plain)
next
  assume h: "attr video_item ''_hf_encoded'' = Some h \<and> as_dict (Some h) = None \<and>
    attr video_item ''container'' = Some container \<and> attr container ''name'' = None \<and>
    attr_path video_item [''_c'', ''file'', ''name''] = None \<and>
    try_container container = Inl e"
  then have "\<not> is_url_str video_item"
    and "extract_filename video_item file_index =
           ([WarnNoFilename e], Filename (PStr (placeholder file_index)))"
    using guarded_path_chain(1) [of video_item h container]
      guarded_path_chain(2) [of video_item h container file_index]
    by simp_all
  then show "get_video_url_from_hf video_item dataset_name file_index =
        ([WarnNoFilename e],
         Inr (PStr (if dataset_name = [] then placeholder file_index
                    else resolve_url dataset_name (placeholder file_index))))"
    using placeholder_ok [of file_index]
    by (simp add: get_video_url_from_hf_def finish_def)
next
  assume h: "attr video_item ''_hf_encoded'' = Some h \<and> as_dict (Some h) = None \<and>
    attr video_item ''container'' = Some container \<and> attr container ''name'' = None \<and>
    attr_path video_item [''_c'', ''file'', ''name''] = None \<and>
    try_container container = Inr filename"
  then have "\<not> is_url_str video_item"
    and "extract_filename video_item file_index = ([], Filename filename)"
    using guarded_path_chain(1) [of video_item h container]
      guarded_path_chain(2) [of video_item h container file_index]
    by simp_all
  then show "get_video_url_from_hf video_item dataset_name file_index =
        ([], Inr (finish filename dataset_name file_index))"
    by (simp add: get_video_url_from_hf_def)
qed

lemma placeholder_7: "placeholder 7 = ''video_7.mp4''"
  by code_simp

lemma placeholder_8: "placeholder 8 = ''video_8.mp4''"
  by code_simp

theorem resolver_total_cases_witness:
  "(\<exists>s. s \<noteq> [] \<and>
      get_video_url_from_hf (PDict [(''path'', PStr ''clips/'')] ''{...}'') ''alice/myset'' 3 =
        ([], Inr (PStr s))) \<and>
   get_video_url_from_hf
     (PObj [(''_hf_encoded'', PNone),
            (''container'', PObj [(''metadata'', PNone)] True ''<container>'' None None)]
        True ''<VideoReader>'' None None) ''alice/myset'' 7 =
     ([WarnNoFilename TypeError],
      Inr (PStr ''https://huggingface.co/datasets/alice/myset/resolve/main/video_7.mp4'')) \<and>
   get_video_url_from_hf
     (PObj [(''_hf_encoded'', PNone),
            (''container'', PObj [(''metadata'', PSeq [] ''[]'')] True ''<container>'' None None)]
        True ''<VideoReader>'' None None) [] 8 =
     ([], Inr (PStr ''video_8.mp4'')) \<and>
   (\<exists>s. s \<noteq> [] \<and>
      snd (get_video_url_from_hf (PObj [(''src'', PSeq [] ''[]'')] True ''<Video>'' None None)
             ''alice/myset'' 0) = Inr (PStr s)) \<and>
   \<not> (\<exists>e. snd (get_video_url_from_hf
                  (PObj [(''path'', PBytes ''clips/a.mp4'')] True ''<Video>'' None None)
                  ''alice/myset'' 0) = Inl e)"
proof (intro conjI)
  show "\<exists>s. s \<noteq> [] \<and>
      get_video_url_from_hf (PDict [(''path'', PStr ''clips/'')] ''{...}'') ''alice/myset'' 3 =
        ([], Inr (PStr s))"
    using resolver_total_cases [of "PDict [(''path'', PStr ''clips/'')] ''{...}''"
        "''alice/myset''" 3]
    by simp
next
  show "get_video_url_from_hf
     (PObj [(''_hf_encoded'', PNone),
            (''container'', PObj [(''metadata'', PNone)] True ''<container>'' None None)]
        True ''<VideoReader>'' None None) ''alice/myset'' 7 =
     ([WarnNoFilename TypeError],
      Inr (PStr ''https://huggingface.co/datasets/alice/myset/resolve/main/video_7.mp4''))"
    using resolver_total_cases [where video_item =
      "PObj [(''_hf_encoded'', PNone),
            (''container'', PObj [(''metadata'', PNone)] True ''<container>'' None None)]
        True ''<VideoReader>'' None None" and dataset_name = "''alice/myset''"
      and file_index = 7 and h = PNone
      and container = "PObj [(''metadata'', PNone)] True ''<container>'' None None"
      and e = TypeError]
    by (simp add: attr_def try_container_def placeholder_7 resolve_url_def)
next
  show "get_video_url_from_hf
     (PObj [(''_hf_encoded'', PNone),
            (''container'', PObj [(''metadata'', PSeq [] ''[]'')] True ''<container>'' None None)]
        True ''<VideoReader>'' None None) [] 8 =
     ([], Inr (PStr ''video_8.mp4''))"
    using resolver_total_cases [where video_item =
      "PObj [(''_hf_encoded'', PNone),
            (''container'', PObj [(''metadata'', PSeq [] ''[]'')] True ''<container>'' None None)]
        True ''<VideoReader>'' None None" and dataset_name = "[]"
      and file_index = 8 and h = PNone
      and container = "PObj [(''metadata'', PSeq [] ''[]'')] True ''<container>'' None None"
      and filename = PNone]
    by (simp add: attr_def try_container_def placeholder_8 finish_def)
next
  show "\<exists>s. s \<noteq> [] \<and>
      snd (get_video_url_from_hf (PObj [(''src'', PSeq [] ''[]'')] True ''<Video>'' None None)
             ''alice/myset'' 0) = Inr (PStr s)"
    using resolver_total_cases [of "PObj [(''src'', PSeq [] ''[]'')] True ''<Video>'' None None"
        "''alice/myset''" 0]
    by (simp add: string_valued_def opt_all_def attr_def)
next
  show "\<not> (\<exists>e. snd (get_video_url_from_hf
                  (PObj [(''path'', PBytes ''clips/a.mp4'')] True ''<Video>'' None None)
                  ''alice/myset'' 0) = Inl e)"
    using resolver_total_cases [of
        "PObj [(''path'', PBytes ''clips/a.mp4'')] True ''<Video>'' None None"
        "''alice/myset''" 0]
    by (simp add: ill_typed_def path_operand_def attr_def hasattr_def path_like_def)
qed

text \<open>
  Claim C1 as stated (total for every reference value) fails: the \<open>try\<close> guards one
  branch only. A reference whose \<open>_hf_encoded\<close> dict has \<open>path\<close> set to \<open>None\<close> makes
  line 37 call \<open>startswith\<close> on \<open>None\<close>, and the \<open>AttributeError\<close> leaves the function.
\<close>

theorem resolver_raises_counterexample:
  "get_video_url_from_hf
     (PObj [(''_hf_encoded'', PDict [(''path'', PNone)] ''{'path': None}'')] True
        ''<VideoReader>'' None None)
     ''alice/myset'' 0 = ([], Inl AttributeError)"
  by (simp add: get_video_url_from_hf_def is_url_str_def extract_filename_def attr_def
        hf_encoded_path_def no_str_method_def hasattr_def)

text \<open>
  Claim C3. Whenever the chain leaves a filename (the reference was not returned as a
  full URL), the dataset identifier is not empty, and the filename is truthy, differs
  from \<open>'None'\<close> and its lower-cased text does not contain \<open><none>\<close>, the resolver
  returns \<open>https://huggingface.co/datasets/<dataset_name>/resolve/main/<filename>\<close>.
  The witness is the bare filename \<open>clip9.mp4\<close> with dataset \<open>alice/myset\<close>.
\<close>

theorem filename_combined_with_dataset:
  assumes "\<not> is_url_str video_item"
    and "extract_filename video_item file_index = (out, Filename filename)"
    and "dataset_name \<noteq> []"
    and "truthy filename"
    and "filename \<noteq> PStr ''None''"
    and "\<not> py_in ''<none>'' (lower (py_str filename))"
  shows "get_video_url_from_hf video_item dataset_name file_index =
           (out, Inr (PStr (''https://huggingface.co/datasets/'' @ dataset_name @
                            ''/resolve/main/'' @ py_str filename)))"
  using assms
  by (simp add: get_video_url_from_hf_def finish_def not_none_sentinel_def resolve_url_def)

theorem filename_combined_with_dataset_witness:
  "get_video_url_from_hf (PStr ''clip9.mp4'') ''alice/myset'' 0 =
     ([], Inr (PStr ''https://huggingface.co/datasets/alice/myset/resolve/main/clip9.mp4''))"
  using filename_combined_with_dataset [of "PStr ''clip9.mp4''" 0 "[]" "PStr ''clip9.mp4''" "''alice/myset''"]
  by (simp add: is_url_str_def is_url_def extract_filename_def attr_def hasattr_def lower_def
        lower_char_def)

text \<open>
  The path of the specification's example, for every object that carries it.
\<close>

lemma hf_encoded_example:
  assumes "attr video_item ''_hf_encoded'' = Some (PDict enc r)"
    and "map_of enc ''path'' = Some (PStr ''hf://datasets/alice/myset@abcd123/clip7.mp4'')"
  shows "get_video_url_from_hf video_item dataset_name file_index =
           ([], Inr (PStr ''https://huggingface.co/datasets/alice/myset/resolve/main/clip7.mp4''))"
proof -
  have "hf_encoded_path enc =
          Return (PStr ''https://huggingface.co/datasets/alice/myset/resolve/main/clip7.mp4'')"
    using assms(2) by (simp add: hf_encoded_path_def resolve_url_def)
  moreover have "\<not> is_url_str video_item"
    using assms(1) by (cases video_item) (simp_all add: is_url_str_def attr_def)
  ultimately show ?thesis
    using assms(1) by (simp add: get_video_url_from_hf_def extract_filename_def)
qed

lemma split_on_nonempty: "split_on c s \<noteq> []"
  by (induction s) (auto split: list.splits)

lemma split_on_no_sep: "c \<notin> set s \<Longrightarrow> split_on c s = [s]"
  by (induction s) auto

lemma split_on_append_sep: "split_on c (a @ c # b) = split_on c a @ split_on c b"
proof (induction a)
  case Nil
  then show ?case by simp
next
  case (Cons x a)
  obtain w ws where "split_on c a = w # ws"
    using split_on_nonempty [of c a] by (cases "split_on c a") auto
  with Cons show ?case by simp
qed

lemma split_on_append_tail:
  "c \<notin> set t \<Longrightarrow> split_on c (s @ t) = butlast (split_on c s) @ [last (split_on c s) @ t]"
proof (induction s)
  case Nil
  then show ?case by (simp add: split_on_no_sep)
next
  case (Cons x s)
  obtain w ws where w: "split_on c s = w # ws"
    using split_on_nonempty [of c s] by (cases "split_on c s") auto
  show ?case
  proof (cases "x = c")
    case True
    with Cons w show ?thesis by simp
  next
    case False
    with Cons w show ?thesis by (cases ws) auto
  qed
qed

lemma join_split_on: "join [c] (split_on c s) = s"
proof (induction s)
  case Nil
  then show ?case by simp
next
  case (Cons x s)
  obtain w ws where w: "split_on c s = w # ws"
    using split_on_nonempty [of c s] by (cases "split_on c s") auto
  with Cons show ?case by (cases ws) auto
qed

lemma replace_absent: "old \<noteq> [] \<Longrightarrow> \<not> py_in old s \<Longrightarrow> replace old new s = s"
  by (induction s) auto

lemma replace_hf_prefix:
  assumes "\<not> py_in ''hf://'' rest"
  shows "replace ''hf://'' [] (''hf://'' @ rest) = rest"
  using assms by (simp add: replace_absent)


lemma hf_encoded_path_scheme:
  assumes "map_of enc ''path'' =
             Some (PStr (''hf://'' @ root @ ''/'' @ dataset_path @ ''@'' @ revision @ ''/'' @
                         filename))"
    and "CHR ''/'' \<notin> set root" and "CHR ''@'' \<notin> set dataset_path"
    and "CHR ''/'' \<notin> set filename"
    and "\<not> py_in ''hf://'' (root @ ''/'' @ dataset_path @ ''@'' @ revision @ ''/'' @ filename)"
  shows "hf_encoded_path enc = Return (PStr (resolve_url dataset_path filename))"
proof -
  define mid where "mid = dataset_path @ CHR ''@'' # revision"
  define rest where "rest = root @ CHR ''/'' # mid @ CHR ''/'' # filename"
  have rest: "root @ ''/'' @ dataset_path @ ''@'' @ revision @ ''/'' @ filename = rest"
    by (simp add: rest_def mid_def)
  have p: "map_of enc ''path'' = Some (PStr (''hf://'' @ rest))"
    using assms(1) rest by simp
  have rep: "replace ''hf://'' [] (''hf://'' @ rest) = rest"
    using assms(5) rest by (simp add: replace_absent)
  have parts: "split_on CHR ''/'' rest = root # split_on CHR ''/'' mid @ [filename]"
    using assms(2,4)
    by (simp add: rest_def split_on_append_sep split_on_no_sep)
  obtain w ws where w: "split_on CHR ''/'' mid = w # ws"
    using split_on_nonempty [of "CHR ''/''" mid] by (cases "split_on CHR ''/'' mid") auto
  have len: "3 \<le> length (split_on CHR ''/'' rest)"
    by (simp add: parts w)
  have dp: "join ''/'' (butlast (tl (split_on CHR ''/'' rest))) = mid"
    using join_split_on [of "CHR ''/''" mid] by (simp add: parts)
  have fn: "last (split_on CHR ''/'' rest) = filename"
    by (simp add: parts)
  have at: "CHR ''@'' \<in> set mid"
    by (simp add: mid_def)
  have hd: "split_on CHR ''@'' mid = dataset_path # split_on CHR ''@'' revision"
    using assms(3) by (simp add: mid_def split_on_append_sep split_on_no_sep)
  have sw: "startswith (''hf://'' @ rest) ''hf://''"
    by simp
  show ?thesis
    unfolding hf_encoded_path_def p
    using sw rep len dp fn at hd by (simp add: Let_def del: startswith.simps replace.simps)
qed

text \<open>
  Claim C2. For every reference object whose \<open>_hf_encoded\<close> is a dict with a path of
  the form \<open>hf://<root>/<dataset-path>@<revision>/<filename>\<close> (no slash in the root
  and in the filename, no \<open>@\<close> in the dataset path, no further \<open>hf://\<close> in the text),
  whatever its other attributes, the dataset identifier and the index, the resolver
  strips the scheme, discards the revision and returns
  \<open>https://huggingface.co/datasets/<dataset-path>/resolve/main/<filename>\<close>. The witness
  is the path \<open>hf://datasets/alice/myset@abcd123/clip7.mp4\<close>, which gives
  \<open>https://huggingface.co/datasets/alice/myset/resolve/main/clip7.mp4\<close>.
\<close>

theorem hf_encoded_scheme:
  assumes "attr video_item ''_hf_encoded'' = Some (PDict enc r)"
    and "map_of enc ''path'' =
           Some (PStr (''hf://'' @ root @ ''/'' @ dataset_path @ ''@'' @ revision @ ''/'' @
                       filename))"
    and "CHR ''/'' \<notin> set root" and "CHR ''@'' \<notin> set dataset_path"
    and "CHR ''/'' \<notin> set filename"
    and "\<not> py_in ''hf://'' (root @ ''/'' @ dataset_path @ ''@'' @ revision @ ''/'' @ filename)"
  shows "get_video_url_from_hf video_item dataset_name file_index =
           ([], Inr (PStr (''https://huggingface.co/datasets/'' @ dataset_path @
                           ''/resolve/main/'' @ filename)))"
proof -
  have "hf_encoded_path enc = Return (PStr (resolve_url dataset_path filename))"
    using assms(2-6) by (rule hf_encoded_path_scheme)
  moreover have "\<not> is_url_str video_item"
    using assms(1) by (cases video_item) (simp_all add: is_url_str_def attr_def)
  ultimately show ?thesis
    using assms(1)
    by (simp add: get_video_url_from_hf_def extract_filename_def resolve_url_def)
qed

theorem hf_encoded_scheme_witness:
  "get_video_url_from_hf
     (PObj [(''_hf_encoded'',
             PDict [(''path'', PStr ''hf://datasets/alice/myset@abcd123/clip7.mp4'')]
               ''{...}'')] True ''<VideoReader>'' None None) ''alice/myset'' 0 =
   ([], Inr (PStr ''https://huggingface.co/datasets/alice/myset/resolve/main/clip7.mp4''))"
  using hf_encoded_scheme
    [where video_item = "PObj [(''_hf_encoded'',
             PDict [(''path'', PStr ''hf://datasets/alice/myset@abcd123/clip7.mp4'')]
               ''{...}'')] True ''<VideoReader>'' None None"
       and enc = "[(''path'', PStr ''hf://datasets/alice/myset@abcd123/clip7.mp4'')]"
       and r = "''{...}''" and root = "''datasets''" and dataset_path = "''alice/myset''"
       and revision = "''abcd123''" and filename = "''clip7.mp4''"
       and dataset_name = "''alice/myset''" and file_index = 0]
  by (simp add: attr_def)

section \<open>Properties of the Manifest Builder\<close>

lemma container_filename_log:
  "set (fst (container_filename v container i)) \<subseteq> range WarnNoFilename"
  by (auto simp: container_filename_def split: option.splits sum.splits)

lemma extract_filename_log:
  "set (fst (extract_filename v i)) \<subseteq> range WarnNoFilename"
proof (cases "as_dict (attr v ''_hf_encoded'')")
  case (Some enc)
  then show ?thesis by (simp add: extract_filename_def)
next
  case None
  show ?thesis
  proof (cases "if hasattr v ''_hf_encoded'' then attr v ''container'' else None")
    case (Some container)
    with None container_filename_log [of v container i] show ?thesis
      by (simp add: extract_filename_def)
  next
    case n2: None
    have "fst (extract_filename v i) = []"
      unfolding extract_filename_def None n2 option.case
      by (simp add: Let_def split: option.splits pyval.splits)
    then show ?thesis by simp
  qed
qed

lemma resolver_log: "set (fst (get_video_url_from_hf v d i)) \<subseteq> range WarnNoFilename"
  using extract_filename_log [of v i]
  by (auto simp: get_video_url_from_hf_def split: prod.splits outcome.splits)

lemma process_item_log:
  "set (fst (process_item dn vc lc dl ul i item)) \<subseteq> range WarnNoFilename"
proof (cases "map_of item vc")
  case None
  then show ?thesis by (simp add: process_item_def)
next
  case (Some v)
  with resolver_log [of v dn "int i"] show ?thesis
    by (auto simp: process_item_def split: prod.splits sum.splits)
qed

lemma items_loop_results:
  "fst (items_loop dn vc lc mx dl ul i xs results out) =
     results @ map (projr \<circ> record_result dn vc lc dl ul)
                 (filter (\<lambda>r. \<not> isl (record_result dn vc lc dl ul r))
                    (enumerate i (reached mx i xs)))"
proof (induction xs arbitrary: i results out)
  case Nil
  then show ?case by (simp add: reached_def split: option.splits)
next
  case (Cons item rest)
  show ?case
  proof (cases "limit_reached mx i")
    case True
    then obtain m where m: "mx = Some m" "m \<noteq> 0" "int i \<ge> m"
      by (auto simp: limit_reached_def split: option.splits)
    then have "nat m - i = 0" by simp
    with True m show ?thesis by (simp add: reached_def)
  next
    case False
    have r: "reached mx i (item # rest) = item # reached mx (Suc i) rest"
    proof (cases mx)
      case None
      then show ?thesis by (simp add: reached_def)
    next
      case (Some m)
      show ?thesis
      proof (cases "m = 0")
        case True
        with Some show ?thesis by (simp add: reached_def)
      next
        case nz: False
        with False Some have "int i < m" by (simp add: limit_reached_def)
        then have "nat m - i = Suc (nat m - Suc i)" by linarith
        with Some nz show ?thesis by (simp add: reached_def)
      qed
    qed
    show ?thesis
    proof (cases "process_item dn vc lc dl ul i item")
      case (Pair out' res)
      then show ?thesis
        using False r Cons.IH
        by (cases res) (simp_all add: record_result_def)
    qed
  qed
qed


lemma reached_Cons:
  assumes "\<not> limit_reached mx i"
  shows "reached mx i (item # rest) = item # reached mx (Suc i) rest"
proof (cases mx)
  case None
  then show ?thesis by (simp add: reached_def)
next
  case (Some m)
  show ?thesis
  proof (cases "m = 0")
    case True
    with Some show ?thesis by (simp add: reached_def)
  next
    case nz: False
    with assms Some have "int i < m" by (simp add: limit_reached_def)
    then have "nat m - i = Suc (nat m - Suc i)" by linarith
    with Some nz show ?thesis by (simp add: reached_def)
  qed
qed

lemma reached_limit: "limit_reached mx i \<Longrightarrow> reached mx i xs = []"
  by (auto simp: limit_reached_def reached_def split: option.splits)

lemma process_item_no_error_line:
  "ErrorProcessingItem j e \<notin> set (fst (process_item dn vc lc dl ul i item))"
  using process_item_log [of dn vc lc dl ul i item] by auto

lemma items_loop_errors:
  "ErrorProcessingItem j e \<in> set (snd (items_loop dn vc lc mx dl ul i xs results out)) \<longleftrightarrow>
     ErrorProcessingItem j e \<in> set out \<or>
     (\<exists>item. (j, item) \<in> set (enumerate i (reached mx i xs)) \<and>
             record_result dn vc lc dl ul (j, item) = Inl e)"
proof (induction xs arbitrary: i results out)
  case Nil
  then show ?case by (simp add: reached_def split: option.splits)
next
  case (Cons item rest)
  show ?case
  proof (cases "limit_reached mx i")
    case True
    then show ?thesis by (simp add: reached_limit)
  next
    case False
    note r = reached_Cons [OF False, of item rest]
    obtain out' res where p: "process_item dn vc lc dl ul i item = (out', res)"
      by (cases "process_item dn vc lc dl ul i item")
    have n: "ErrorProcessingItem j e \<notin> set out'"
      using process_item_no_error_line [of j e dn vc lc dl ul i item] p by simp
    show ?thesis
    proof (cases res)
      case (Inl e')
      with False p r n Cons.IH [of "Suc i" results "out @ out' @ [ErrorProcessingItem i e']"]
      show ?thesis by (auto simp: record_result_def)
    next
      case (Inr ent)
      with False p r n
        Cons.IH [of "Suc i" "results @ [ent]"
          "out @ out' @ (if Suc i mod 10 = 0 then [ProcessedItems (Suc i)] else [])"]
      show ?thesis by (auto simp: record_result_def)
    qed
  qed
qed

lemma items_loop_log_grows:
  "set out \<subseteq> set (snd (items_loop dn vc lc mx dl ul i xs results out))"
proof (induction xs arbitrary: i results out)
  case Nil
  then show ?case by simp
next
  case (Cons item rest)
  obtain out' res where p: "process_item dn vc lc dl ul i item = (out', res)"
    by (cases "process_item dn vc lc dl ul i item")
  show ?case
  proof (cases res)
    case (Inl e')
    with p Cons.IH [where i = "Suc i" and results = results
                      and out = "out @ out' @ [ErrorProcessingItem i e']"]
    show ?thesis by auto
  next
    case (Inr ent)
    with p Cons.IH [where i = "Suc i" and results = "results @ [ent]"
          and out = "out @ out' @ (if Suc i mod 10 = 0 then [ProcessedItems (Suc i)] else [])"]
    show ?thesis by auto
  qed
qed

lemma items_loop_reached_line:
  assumes "m \<noteq> 0" and "m < int i + int (length xs)" and "xs \<noteq> []"
  shows "ReachedMaxItems m \<in> set (snd (items_loop dn vc lc (Some m) dl ul i xs results out))"
  using assms
proof (induction xs arbitrary: i results out)
  case Nil
  then show ?case by simp
next
  case (Cons item rest)
  show ?case
  proof (cases "limit_reached (Some m) i")
    case True
    then show ?thesis by simp
  next
    case False
    with Cons.prems have lt: "int i < m" by (simp add: limit_reached_def)
    with Cons.prems have ne: "rest \<noteq> []" by auto
    from Cons.prems have len: "m < int (Suc i) + int (length rest)" by simp
    obtain out' res where p: "process_item dn vc lc dl ul i item = (out', res)"
      by (cases "process_item dn vc lc dl ul i item")
    show ?thesis
    proof (cases res)
      case (Inl e')
      with False p Cons.IH [OF Cons.prems(1) len ne] show ?thesis by simp
    next
      case (Inr ent)
      with False p Cons.IH [OF Cons.prems(1) len ne] show ?thesis by simp
    qed
  qed
qed

lemma extract_unfold:
  assumes "select_split dataset split = Inr data"
    and "check_columns data vc lc = (out1, Inr lc')"
  shows "\<exists>out0. extract_videos_from_dataset dataset dn vc lc split mx dl cl =
           (snd (items_loop dn vc lc' mx dl (use_label_of cl) 0 (items data) [] out0),
            Inr (fst (items_loop dn vc lc' mx dl (use_label_of cl) 0 (items data) [] out0))) \<and>
           (\<forall>j e. ErrorProcessingItem j e \<notin> set out0)"
proof -
  define out0 where "out0 =
    (out1 @ [if has_len data then ProcessingItems (length (items data))
             else ProcessingStreaming]) @
    (case use_label_of cl of Some l \<Rightarrow> [UsingOverrideLabel l] | None \<Rightarrow> [])"
  have "\<forall>j e. ErrorProcessingItem j e \<notin> set out1"
    using assms(2) by (auto simp: check_columns_def split: option.splits if_splits)
  then have "\<forall>j e. ErrorProcessingItem j e \<notin> set out0"
    by (auto simp: out0_def split: option.splits)
  moreover have "extract_videos_from_dataset dataset dn vc lc split mx dl cl =
           (snd (items_loop dn vc lc' mx dl (use_label_of cl) 0 (items data) [] out0),
            Inr (fst (items_loop dn vc lc' mx dl (use_label_of cl) 0 (items data) [] out0)))"
    using assms by (simp add: extract_videos_from_dataset_def Let_def split_beta out0_def)
  ultimately show ?thesis by blast
qed

text \<open>
  Claim C4. Once the split and the video column are found, the builder returns a list,
  whatever the records are. With \<open>recs\<close> the records the loop reaches (all of them
  without a limit), paired with their indices, the list holds the entry of every
  reached record whose processing succeeded, in order; its length is the number of
  reached records minus the number of failing ones; each failing record has its line
  \<open>Error processing item <index>: <error>\<close> in the output; and a record without the
  video field fails with \<open>KeyError\<close>.
\<close>

theorem item_errors_are_skipped:
  fixes max_items :: "int option" and dataset_name default_label :: string
    and change_label :: "string option"
  assumes "select_split dataset split = Inr data"
    and "check_columns data video_column label_column = (out1, Inr label_column')"
  defines "recs \<equiv> enumerate 0 (reached max_items 0 (items data))"
    and "res \<equiv> record_result dataset_name video_column label_column' default_label
                  (use_label_of change_label)"
  shows "\<exists>out results.
           extract_videos_from_dataset dataset dataset_name video_column label_column split
             max_items default_label change_label = (out, Inr results) \<and>
           results = map (projr \<circ> res) (filter (\<lambda>r. \<not> isl (res r)) recs) \<and>
           length results = length recs - length (filter (\<lambda>r. isl (res r)) recs) \<and>
           (\<forall>j item e. (j, item) \<in> set recs \<and> res (j, item) = Inl e \<longrightarrow>
                        ErrorProcessingItem j e \<in> set out) \<and>
           (\<forall>j item. map_of item video_column = None \<longrightarrow>
                      res (j, item) = Inl (KeyError video_column))"
proof -
  obtain out0 where
    e: "extract_videos_from_dataset dataset dataset_name video_column label_column split
          max_items default_label change_label =
        (snd (items_loop dataset_name video_column label_column' max_items default_label
                (use_label_of change_label) 0 (items data) [] out0),
         Inr (fst (items_loop dataset_name video_column label_column' max_items default_label
                (use_label_of change_label) 0 (items data) [] out0)))"
    using extract_unfold [OF assms(1,2)] by blast
  have len: "length (filter (\<lambda>r. \<not> isl (res r)) recs) =
               length recs - length (filter (\<lambda>r. isl (res r)) recs)"
    using sum_length_filter_compl [of "\<lambda>r. isl (res r)" recs] by simp
  have k: "\<forall>j item. map_of item video_column = None \<longrightarrow>
                      res (j, item) = Inl (KeyError video_column)"
    by (simp add: res_def record_result_def process_item_def)
  show ?thesis
    unfolding e
    using len k
    by (auto simp: items_loop_results items_loop_errors recs_def res_def)
qed


theorem item_errors_are_skipped_witness:
  "\<exists>out. extract_videos_from_dataset
            (Dataset \<lparr>column_names = None, has_len = False,
                      items = [[(''video'', PStr ''http://h/a.mp4'')],
                               [(''title'', PStr ''b'')],
                               [(''video'', PStr ''http://h/c.mp4'')]]\<rparr>)
            ''alice/myset'' ''video'' None ''train'' None ''L'' None =
          (out, Inr [\<lparr>video = PStr ''http://h/a.mp4'', label = ''L''\<rparr>,
                     \<lparr>video = PStr ''http://h/c.mp4'', label = ''L''\<rparr>]) \<and>
          ErrorProcessingItem 1 (KeyError ''video'') \<in> set out"
proof -
  let ?data = "\<lparr>column_names = None, has_len = False,
                 items = [[(''video'', PStr ''http://h/a.mp4'')],
                          [(''title'', PStr ''b'')],
                          [(''video'', PStr ''http://h/c.mp4'')]]\<rparr>"
  have s: "select_split (Dataset ?data) ''train'' = Inr ?data"
    by (simp add: select_split_def)
  have c: "check_columns ?data ''video'' None = ([], Inr None)"
    by (simp add: check_columns_def)
  have r: "record_result ''alice/myset'' ''video'' None ''L'' (use_label_of None)
             (1, [(''title'', PStr ''b'')]) = Inl (KeyError ''video'')"
    by (simp add: record_result_def process_item_def)
  from item_errors_are_skipped [OF s c, where max_items = None
      and dataset_name = "''alice/myset''" and default_label = "''L''" and change_label = None]
  obtain out results where
    e: "extract_videos_from_dataset (Dataset ?data) ''alice/myset'' ''video'' None ''train''
          None ''L'' None = (out, Inr results)"
    and v: "results =
          map (projr \<circ> record_result ''alice/myset'' ''video'' None ''L'' (use_label_of None))
            (filter (\<lambda>r. \<not> isl (record_result ''alice/myset'' ''video'' None ''L''
                                    (use_label_of None) r))
               (enumerate 0 (reached None 0 (items ?data))))"
    and l: "\<forall>j item e. (j, item) \<in> set (enumerate 0 (reached None 0 (items ?data))) \<and>
              record_result ''alice/myset'' ''video'' None ''L'' (use_label_of None) (j, item)
                = Inl e \<longrightarrow> ErrorProcessingItem j e \<in> set out"
    by blast
  have "results = [\<lparr>video = PStr ''http://h/a.mp4'', label = ''L''\<rparr>,
                   \<lparr>video = PStr ''http://h/c.mp4'', label = ''L''\<rparr>]"
    unfolding v
    by (simp add: reached_def record_result_def process_item_def get_video_url_from_hf_def
          is_url_str_def is_url_def item_label_def use_label_of_def str_truthy_def)
  moreover have "ErrorProcessingItem 1 (KeyError ''video'') \<in> set out"
    using l r by (simp add: reached_def)
  ultimately show ?thesis using e by simp
qed


text \<open>
  Claim C8, as amended. With \<open>max_items = 3\<close> on a split of 10 records the builder
  returns a list: the entries of those of the first 3 records whose processing
  succeeded, in order, so at most 3 entries, and exactly the 3 entries of the first 3
  records when none of them fails. The line \<open>Reached maximum items limit: 3\<close> is
  printed, and no error line is printed for an index from 3 on.
\<close>

theorem max_items_three_of_ten:
  fixes dataset_name default_label :: string and change_label :: "string option"
  assumes "select_split dataset split = Inr data"
    and "check_columns data video_column label_column = (out1, Inr label_column')"
    and "length (items data) = 10"
  defines "recs \<equiv> enumerate 0 (take 3 (items data))"
    and "res \<equiv> record_result dataset_name video_column label_column' default_label
                  (use_label_of change_label)"
  shows "\<exists>out results.
           extract_videos_from_dataset dataset dataset_name video_column label_column split
             (Some 3) default_label change_label = (out, Inr results) \<and>
           results = map (projr \<circ> res) (filter (\<lambda>r. \<not> isl (res r)) recs) \<and>
           length results \<le> 3 \<and>
           ((\<forall>r \<in> set recs. \<not> isl (res r)) \<longrightarrow>
              results = map (projr \<circ> res) recs \<and> length results = 3) \<and>
           ReachedMaxItems 3 \<in> set out \<and>
           (\<forall>j e. ErrorProcessingItem j e \<in> set out \<longrightarrow> j < 3)"
proof -
  let ?loop = "\<lambda>out0. items_loop dataset_name video_column label_column' (Some 3) default_label
                 (use_label_of change_label) 0 (items data) [] out0"
  obtain out0 where
    e: "extract_videos_from_dataset dataset dataset_name video_column label_column split
          (Some 3) default_label change_label = (snd (?loop out0), Inr (fst (?loop out0)))"
    and n: "\<forall>j e. ErrorProcessingItem j e \<notin> set out0"
    using extract_unfold [OF assms(1,2)] by blast
  have r: "reached (Some 3) 0 (items data) = take 3 (items data)"
    by (simp add: reached_def)
  have f: "fst (?loop out0) = map (projr \<circ> res) (filter (\<lambda>r. \<not> isl (res r)) recs)"
    by (simp add: items_loop_results r recs_def res_def)
  have len: "length recs = 3"
    using assms(3) by (simp add: recs_def)
  have le: "length (filter (\<lambda>r. \<not> isl (res r)) recs) \<le> 3"
    using length_filter_le [of "\<lambda>r. \<not> isl (res r)" recs] len by simp
  have ne: "items data \<noteq> []"
    using assms(3) by auto
  have m: "ReachedMaxItems 3 \<in> set (snd (?loop out0))"
    using assms(3) ne by (intro items_loop_reached_line) simp_all
  have er: "\<forall>j e. ErrorProcessingItem j e \<in> set (snd (?loop out0)) \<longrightarrow> j < 3"
    using n assms(3) by (auto simp: items_loop_errors r in_set_enumerate_eq)
  have al: "(\<forall>r \<in> set recs. \<not> isl (res r)) \<longrightarrow>
              filter (\<lambda>r. \<not> isl (res r)) recs = recs"
    by simp
  show ?thesis
    unfolding e using f le m er al len by auto
qed

theorem max_items_three_of_ten_witness:
  "\<exists>out. extract_videos_from_dataset
            (Dataset \<lparr>column_names = None, has_len = False,
                      items = [
                 [(''video'', PStr ''http://h/v0.mp4'')],
                 [(''video'', PStr ''http://h/v1.mp4'')],
                 [(''video'', PStr ''http://h/v2.mp4'')],
                 [(''video'', PStr ''http://h/v3.mp4'')],
                 [(''video'', PStr ''http://h/v4.mp4'')],
                 [(''video'', PStr ''http://h/v5.mp4'')],
                 [(''video'', PStr ''http://h/v6.mp4'')],
                 [(''video'', PStr ''http://h/v7.mp4'')],
                 [(''video'', PStr ''http://h/v8.mp4'')],
                 [(''video'', PStr ''http://h/v9.mp4'')]]\<rparr>)
            ''alice/myset'' ''video'' None ''train'' (Some 3) ''L'' None =
          (out, Inr [\<lparr>video = PStr ''http://h/v0.mp4'', label = ''L''\<rparr>,
                     \<lparr>video = PStr ''http://h/v1.mp4'', label = ''L''\<rparr>,
                     \<lparr>video = PStr ''http://h/v2.mp4'', label = ''L''\<rparr>]) \<and>
          ReachedMaxItems 3 \<in> set out"
proof -
  let ?data = "\<lparr>column_names = None, has_len = False,
                 items = [
                 [(''video'', PStr ''http://h/v0.mp4'')],
                 [(''video'', PStr ''http://h/v1.mp4'')],
                 [(''video'', PStr ''http://h/v2.mp4'')],
                 [(''video'', PStr ''http://h/v3.mp4'')],
                 [(''video'', PStr ''http://h/v4.mp4'')],
                 [(''video'', PStr ''http://h/v5.mp4'')],
                 [(''video'', PStr ''http://h/v6.mp4'')],
                 [(''video'', PStr ''http://h/v7.mp4'')],
                 [(''video'', PStr ''http://h/v8.mp4'')],
                 [(''video'', PStr ''http://h/v9.mp4'')]]\<rparr>"
  have s: "select_split (Dataset ?data) ''train'' = Inr ?data"
    by (simp add: select_split_def)
  have c: "check_columns ?data ''video'' None = ([], Inr None)"
    by (simp add: check_columns_def)
  have t: "length (items ?data) = 10"
    by simp
  from max_items_three_of_ten [OF s c t, where dataset_name = "''alice/myset''"
      and default_label = "''L''" and change_label = None]
  obtain out results where
    e: "extract_videos_from_dataset (Dataset ?data) ''alice/myset'' ''video'' None ''train''
          (Some 3) ''L'' None = (out, Inr results)"
    and v: "results =
          map (projr \<circ> record_result ''alice/myset'' ''video'' None ''L'' (use_label_of None))
            (filter (\<lambda>r. \<not> isl (record_result ''alice/myset'' ''video'' None ''L''
                                    (use_label_of None) r))
               (enumerate 0 (take 3 (items ?data))))"
    and m: "ReachedMaxItems 3 \<in> set out"
    by blast
  have "results = [\<lparr>video = PStr ''http://h/v0.mp4'', label = ''L''\<rparr>,
                   \<lparr>video = PStr ''http://h/v1.mp4'', label = ''L''\<rparr>,
                   \<lparr>video = PStr ''http://h/v2.mp4'', label = ''L''\<rparr>]"
    unfolding v
    by (simp add: record_result_def process_item_def get_video_url_from_hf_def
          is_url_str_def is_url_def item_label_def use_label_of_def str_truthy_def)
  with e m show ?thesis by simp
qed

text \<open>
  Claim C8 as stated (exactly 3 entries for every split of 10 records) fails: the limit
  counts records, not entries. When the first record has no video field, it is skipped
  and the builder returns 2 entries.
\<close>

theorem max_items_three_counterexample:
  "snd (extract_videos_from_dataset
          (Dataset \<lparr>column_names = None, has_len = False,
                    items = [
                 [(''title'', PStr ''no video'')],
                 [(''video'', PStr ''http://h/v1.mp4'')],
                 [(''video'', PStr ''http://h/v2.mp4'')],
                 [(''video'', PStr ''http://h/v3.mp4'')],
                 [(''video'', PStr ''http://h/v4.mp4'')],
                 [(''video'', PStr ''http://h/v5.mp4'')],
                 [(''video'', PStr ''http://h/v6.mp4'')],
                 [(''video'', PStr ''http://h/v7.mp4'')],
                 [(''video'', PStr ''http://h/v8.mp4'')],
                 [(''video'', PStr ''http://h/v9.mp4'')]]\<rparr>)
          ''alice/myset'' ''video'' None ''train'' (Some 3) ''L'' None) =
   Inr [\<lparr>video = PStr ''http://h/v1.mp4'', label = ''L''\<rparr>,
        \<lparr>video = PStr ''http://h/v2.mp4'', label = ''L''\<rparr>]"
  by (simp add: extract_videos_from_dataset_def select_split_def check_columns_def
        use_label_of_def str_truthy_def limit_reached_def process_item_def
        get_video_url_from_hf_def is_url_str_def is_url_def item_label_def)

text \<open>
  Claim C7. When the dataset is a dict of splits and the requested split is not among
  its keys, the builder raises the \<open>ValueError\<close> that carries the requested name and
  the list of the available split names, and it has printed nothing and processed no
  record.
\<close>

theorem missing_split_is_fatal:
  assumes "split \<notin> fst ` set d"
  shows "extract_videos_from_dataset (DatasetDict d) dataset_name video_column label_column
           split max_items default_label change_label =
         ([], Inl (SplitNotFound split (map fst d)))"
proof -
  from assms have "map_of d split = None"
    by (simp add: map_of_eq_None_iff)
  then show ?thesis
    by (simp add: extract_videos_from_dataset_def select_split_def)
qed

theorem missing_split_is_fatal_witness:
  "extract_videos_from_dataset
     (DatasetDict [(''test'', \<lparr>column_names = None, has_len = False,
                              items = [[(''video'', PStr ''http://h/a.mp4'')]]\<rparr>),
                   (''validation'', \<lparr>column_names = None, has_len = False, items = []\<rparr>)])
     ''alice/myset'' ''video'' None ''train'' None ''L'' None =
   ([], Inl (SplitNotFound ''train'' [''test'', ''validation'']))"
  using missing_split_is_fatal [of "''train''"
    "[(''test'', \<lparr>column_names = None, has_len = False,
                              items = [[(''video'', PStr ''http://h/a.mp4'')]]\<rparr>),
                   (''validation'', \<lparr>column_names = None, has_len = False, items = []\<rparr>)]"
    "''alice/myset''" "''video''" None None "''L''" None]
  by simp

lemma use_label_of_empty: "use_label_of (Some []) = use_label_of None"
  by (simp add: use_label_of_def str_truthy_def)

lemma extract_empty_override:
  "extract_videos_from_dataset dataset dataset_name video_column label_column split max_items
     default_label (Some []) =
   extract_videos_from_dataset dataset dataset_name video_column label_column split max_items
     default_label None"
  by (simp only: extract_videos_from_dataset_def use_label_of_empty)

lemma main_empty_override:
  "main env (a\<lparr>change_label_arg := Some []\<rparr>) = main env (a\<lparr>change_label_arg := None\<rparr>)"
  by (simp add: main_def str_truthy_def extract_empty_override
        cong: option.case_cong sum.case_cong prod.case_cong if_cong)

lemma record_result_label:
  assumes "\<not> isl (record_result dn vc lc dl ul r)"
  shows "label (projr (record_result dn vc lc dl ul r)) = item_label ul lc dl (snd r)"
proof (cases "map_of (snd r) vc")
  case None
  with assms show ?thesis by (simp add: record_result_def process_item_def)
next
  case (Some video_data)
  obtain out res where g: "get_video_url_from_hf video_data dn (int (fst r)) = (out, res)"
    by (cases "get_video_url_from_hf video_data dn (int (fst r))")
  with assms Some show ?thesis
    by (cases res) (simp_all add: record_result_def process_item_def)
qed

lemma item_label_no_override:
  "item_label None lc dl item =
     (case lc of
        None \<Rightarrow> dl
      | Some c \<Rightarrow>
          if c = [] then dl
          else (case map_of item c of None \<Rightarrow> dl | Some v \<Rightarrow> py_str v))"
  by (simp add: item_label_def str_truthy_def split: option.splits)

lemma builder_labels_no_override:
  assumes "select_split dataset split = Inr data"
    and "check_columns data vc lc = (out1, Inr lc')"
  shows "\<exists>out results.
           extract_videos_from_dataset dataset dn vc lc split mx dl (Some []) =
             (out, Inr results) \<and>
           map label results =
             map (\<lambda>r. case lc' of
                         None \<Rightarrow> dl
                       | Some c \<Rightarrow>
                           if c = [] then dl
                           else (case map_of (snd r) c of None \<Rightarrow> dl | Some v \<Rightarrow> py_str v))
               (filter (\<lambda>r. \<not> isl (record_result dn vc lc' dl None r))
                  (enumerate 0 (reached mx 0 (items data))))"
proof -
  let ?res = "record_result dn vc lc' dl None"
  let ?recs = "enumerate 0 (reached mx 0 (items data))"
  obtain out0 where
    e: "extract_videos_from_dataset dataset dn vc lc split mx dl (Some []) =
          (snd (items_loop dn vc lc' mx dl None 0 (items data) [] out0),
           Inr (fst (items_loop dn vc lc' mx dl None 0 (items data) [] out0)))"
    using extract_unfold [OF assms, of dn mx dl "Some []"]
    by (auto simp: use_label_of_def str_truthy_def)
  have "map label (map (projr \<circ> ?res) (filter (\<lambda>r. \<not> isl (?res r)) ?recs)) =
          map (\<lambda>r. item_label None lc' dl (snd r)) (filter (\<lambda>r. \<not> isl (?res r)) ?recs)"
    by (simp add: record_result_label)
  then show ?thesis
    unfolding e by (simp add: items_loop_results item_label_no_override)
qed

text \<open>
  Claim C10. An empty override label behaves as no override. The builder returns the
  same result and prints the same lines with \<open>change_label = ''\<close> as with
  \<open>change_label = None\<close>. Once the split and the video column are found, the entries it
  returns with the empty override carry the per-record labels: for each reached record
  whose processing succeeded, in order, the text of its value in the label column when
  that column is set and the record has it, and the default label otherwise. \<open>main\<close>
  does the same with \<open>--change_label ''\<close> as without the option, also when the output
  file exists: what it does is independent of the existence and the content of that
  file, and it never writes a rewritten manifest.
\<close>

theorem empty_override_is_no_override:
  "extract_videos_from_dataset dataset dataset_name video_column label_column split max_items
     default_label (Some []) =
   extract_videos_from_dataset dataset dataset_name video_column label_column split max_items
     default_label None \<and>
   item_label (use_label_of (Some [])) label_column default_label item =
     (case label_column of
        None \<Rightarrow> default_label
      | Some c \<Rightarrow>
          if c = [] then default_label
          else (case map_of item c of None \<Rightarrow> default_label | Some v \<Rightarrow> py_str v)) \<and>
   main env (a\<lparr>change_label_arg := Some []\<rparr>) = main env (a\<lparr>change_label_arg := None\<rparr>) \<and>
   main (env\<lparr>path_exists := \<lambda>p. True, read_json := rj\<rparr>) (a\<lparr>change_label_arg := Some []\<rparr>) =
     main (env\<lparr>path_exists := \<lambda>p. False\<rparr>) (a\<lparr>change_label_arg := Some []\<rparr>) \<and>
   snd (main env (a\<lparr>change_label_arg := Some []\<rparr>)) \<noteq> Some (Rewritten j) \<and>
   (select_split dataset split = Inr data \<and>
    check_columns data video_column label_column = (warnings, Inr label_column') \<longrightarrow>
      (\<exists>out results.
         extract_videos_from_dataset dataset dataset_name video_column label_column split
           max_items default_label (Some []) = (out, Inr results) \<and>
         map label results =
           map (\<lambda>r. case label_column' of
                       None \<Rightarrow> default_label
                     | Some c \<Rightarrow>
                         if c = [] then default_label
                         else (case map_of (snd r) c of
                                 None \<Rightarrow> default_label
                               | Some v \<Rightarrow> py_str v))
             (filter (\<lambda>r. \<not> isl (record_result dataset_name video_column label_column'
                                    default_label None r))
                (enumerate 0 (reached max_items 0 (items data))))))"
proof (intro conjI impI)
  show "extract_videos_from_dataset dataset dataset_name video_column label_column split
          max_items default_label (Some []) =
        extract_videos_from_dataset dataset dataset_name video_column label_column split
          max_items default_label None"
    by (rule extract_empty_override)
  show "item_label (use_label_of (Some [])) label_column default_label item =
     (case label_column of
        None \<Rightarrow> default_label
      | Some c \<Rightarrow>
          if c = [] then default_label
          else (case map_of item c of None \<Rightarrow> default_label | Some v \<Rightarrow> py_str v))"
    by (simp add: item_label_def use_label_of_def str_truthy_def split: option.splits)
  show "main env (a\<lparr>change_label_arg := Some []\<rparr>) = main env (a\<lparr>change_label_arg := None\<rparr>)"
    by (rule main_empty_override)
  show "main (env\<lparr>path_exists := \<lambda>p. True, read_json := rj\<rparr>)
          (a\<lparr>change_label_arg := Some []\<rparr>) =
        main (env\<lparr>path_exists := \<lambda>p. False\<rparr>) (a\<lparr>change_label_arg := Some []\<rparr>)"
    by (simp add: main_def str_truthy_def
          cong: option.case_cong sum.case_cong prod.case_cong if_cong)
  show "snd (main env (a\<lparr>change_label_arg := Some []\<rparr>)) \<noteq> Some (Rewritten j)"
    by (simp add: main_def str_truthy_def split: option.splits sum.splits prod.splits)
next
  assume "select_split dataset split = Inr data \<and>
    check_columns data video_column label_column = (warnings, Inr label_column')"
  then have s: "select_split dataset split = Inr data"
    and c: "check_columns data video_column label_column = (warnings, Inr label_column')"
    by simp_all
  show "\<exists>out results.
         extract_videos_from_dataset dataset dataset_name video_column label_column split
           max_items default_label (Some []) = (out, Inr results) \<and>
         map label results =
           map (\<lambda>r. case label_column' of
                       None \<Rightarrow> default_label
                     | Some c \<Rightarrow>
                         if c = [] then default_label
                         else (case map_of (snd r) c of
                                 None \<Rightarrow> default_label
                               | Some v \<Rightarrow> py_str v))
             (filter (\<lambda>r. \<not> isl (record_result dataset_name video_column label_column'
                                    default_label None r))
                (enumerate 0 (reached max_items 0 (items data))))"
    by (rule builder_labels_no_override [OF s c])
qed

theorem empty_override_is_no_override_witness:
  "\<exists>out results.
     extract_videos_from_dataset
       (Dataset \<lparr>column_names = None, has_len = False,
                 items = [[(''video'', PStr ''http://h/a.mp4''), (''tag'', PStr ''cat'')],
                          [(''video'', PStr ''http://h/b.mp4'')],
                          [(''tag'', PStr ''dog'')]]\<rparr>)
       ''alice/myset'' ''video'' (Some ''tag'') ''train'' None ''L'' (Some []) =
       (out, Inr results) \<and>
     map label results = [''cat'', ''L'']"
proof -
  let ?data = "\<lparr>column_names = None, has_len = False,
                 items = [[(''video'', PStr ''http://h/a.mp4''), (''tag'', PStr ''cat'')],
                          [(''video'', PStr ''http://h/b.mp4'')],
                          [(''tag'', PStr ''dog'')]]\<rparr>"
  have s: "select_split (Dataset ?data) ''train'' = Inr ?data"
    by (simp add: select_split_def)
  have c: "check_columns ?data ''video'' (Some ''tag'') = ([], Inr (Some ''tag''))"
    by (simp add: check_columns_def)
  from empty_override_is_no_override [where dataset = "Dataset ?data" and split = "''train''"
      and data = ?data and video_column = "''video''" and label_column = "Some ''tag''"
      and warnings = "[]" and label_column' = "Some ''tag''" and dataset_name = "''alice/myset''"
      and max_items = None and default_label = "''L''"] s c
  obtain out results where
    e: "extract_videos_from_dataset (Dataset ?data) ''alice/myset'' ''video'' (Some ''tag'')
          ''train'' None ''L'' (Some []) = (out, Inr results)"
    and l: "map label results =
           map (\<lambda>r. case Some ''tag'' of
                       None \<Rightarrow> ''L''
                     | Some c \<Rightarrow>
                         if c = [] then ''L''
                         else (case map_of (snd r) c of None \<Rightarrow> ''L'' | Some v \<Rightarrow> py_str v))
             (filter (\<lambda>r. \<not> isl (record_result ''alice/myset'' ''video'' (Some ''tag'')
                                    ''L'' None r))
                (enumerate 0 (reached None 0 (items ?data))))"
    by blast
  have "map label results = [''cat'', ''L'']"
    unfolding l
    by (simp add: reached_def record_result_def process_item_def get_video_url_from_hf_def
          is_url_str_def is_url_def)
  with e show ?thesis by simp
qed

section \<open>Properties of the Label Rewriter and of \<open>main\<close>\<close>

lemma dict_set_keys: "map_of kvs key \<noteq> None \<Longrightarrow> map fst (dict_set kvs key v) = map fst kvs"
  by (induction kvs) auto

lemma map_of_dict_set: "map_of (dict_set kvs key v) = (map_of kvs)(key \<mapsto> v)"
  by (induction kvs) (auto simp: fun_eq_iff)

text \<open>
  Claim C5. The Label Rewriter on a loaded manifest of N entries with the label \<open>X\<close>
  succeeds and gives N entries, in the same order. An entry that is an object with a
  \<open>label\<close> field keeps its keys in their order, has \<open>label\<close> set to \<open>X\<close> and every other
  field (\<open>video\<close> among them) as before; any other entry is unchanged. When the
  override is given, the output file exists and holds this manifest, and writing
  succeeds, \<open>main\<close> writes exactly these entries and returns 0.
\<close>

theorem label_rewriter_frame:
  "(\<exists>entries'. rewrite_labels (JList entries) X = Inr (JList entries') \<and>
      length entries' = length entries \<and>
      (\<forall>i<length entries.
         case entries ! i of
           JObj kvs \<Rightarrow>
             if ''label'' \<in> fst ` set kvs
             then \<exists>kvs'. entries' ! i = JObj kvs' \<and> map fst kvs' = map fst kvs \<and>
                         map_of kvs' = (map_of kvs)(''label'' \<mapsto> JStr X)
             else entries' ! i = entries ! i
         | v \<Rightarrow> entries' ! i = entries ! i) \<and>
      (change_label_arg a = Some X \<and> X \<noteq> [] \<and> path_exists env (output a) \<and>
       read_json env (output a) = Inr (JList entries) \<and>
       write_json env (output a) (Rewritten (JList entries')) = None \<longrightarrow>
         main env a = (Some 0, Some (Rewritten (JList entries')))))"
proof -
  have "rewrite_labels (JList entries) X = Inr (JList (map (rewrite_item X) entries))"
    by (simp add: rewrite_labels_def)
  moreover have "\<forall>i<length entries.
         case entries ! i of
           JObj kvs \<Rightarrow>
             if ''label'' \<in> fst ` set kvs
             then \<exists>kvs'. map (rewrite_item X) entries ! i = JObj kvs' \<and>
                         map fst kvs' = map fst kvs \<and>
                         map_of kvs' = (map_of kvs)(''label'' \<mapsto> JStr X)
             else map (rewrite_item X) entries ! i = entries ! i
         | v \<Rightarrow> map (rewrite_item X) entries ! i = entries ! i"
  proof (intro allI impI)
    fix i assume i: "i < length entries"
    show "case entries ! i of
           JObj kvs \<Rightarrow>
             if ''label'' \<in> fst ` set kvs
             then \<exists>kvs'. map (rewrite_item X) entries ! i = JObj kvs' \<and>
                         map fst kvs' = map fst kvs \<and>
                         map_of kvs' = (map_of kvs)(''label'' \<mapsto> JStr X)
             else map (rewrite_item X) entries ! i = entries ! i
         | v \<Rightarrow> map (rewrite_item X) entries ! i = entries ! i"
    proof (cases "entries ! i")
      case (JObj kvs)
      show ?thesis
      proof (cases "map_of kvs ''label''")
        case None
        with JObj i show ?thesis
          by (simp add: rewrite_item_def map_of_eq_None_iff)
      next
        case (Some w)
        then have "''label'' \<in> fst ` set kvs"
          using map_of_eq_None_iff [of kvs "''label''"] by simp
        with JObj i Some show ?thesis
          by (simp add: rewrite_item_def dict_set_keys map_of_dict_set)
      qed
    qed (use i in \<open>simp_all add: rewrite_item_def\<close>)
  qed
  moreover have "change_label_arg a = Some X \<and> X \<noteq> [] \<and> path_exists env (output a) \<and>
       read_json env (output a) = Inr (JList entries) \<and>
       write_json env (output a) (Rewritten (JList (map (rewrite_item X) entries))) = None \<longrightarrow>
         main env a = (Some 0, Some (Rewritten (JList (map (rewrite_item X) entries))))"
    by (simp add: main_def str_truthy_def rewrite_labels_def)
  ultimately show ?thesis
    by (intro exI [of _ "map (rewrite_item X) entries"]) simp
qed


theorem label_rewriter_frame_witness:
  "rewrite_labels
     (JList [JObj [(''video'', JStr ''a.mp4''), (''label'', JStr ''old'')],
             JObj [(''video'', JStr ''b.mp4'')],
             JStr ''note'']) ''X'' =
   Inr (JList [JObj [(''video'', JStr ''a.mp4''), (''label'', JStr ''X'')],
               JObj [(''video'', JStr ''b.mp4'')],
               JStr ''note'']) \<and>
   main \<lparr>path_exists = \<lambda>p. True,
         read_json = \<lambda>p. Inr (JList [JObj [(''video'', JStr ''a.mp4''), (''label'', JStr ''old'')],
                                      JObj [(''video'', JStr ''b.mp4'')],
                                      JStr ''note'']),
         write_json = \<lambda>p w. None,
         load_dataset = \<lambda>db sub. Inl (OtherError ''offline'')\<rparr>
        \<lparr>database = None, output = ''input.json'', label_arg = ''L'',
         change_label_arg = Some ''X'', video_column_arg = ''video'', label_column_arg = None,
         split_arg = ''train'', subset = None, streaming = False, max_items_arg = None\<rparr> =
   (Some 0,
    Some (Rewritten (JList [JObj [(''video'', JStr ''a.mp4''), (''label'', JStr ''X'')],
                            JObj [(''video'', JStr ''b.mp4'')],
                            JStr ''note''])))"
proof -
  let ?entries = "[JObj [(''video'', JStr ''a.mp4''), (''label'', JStr ''old'')],
                   JObj [(''video'', JStr ''b.mp4'')],
                   JStr ''note'']"
  let ?env = "\<lparr>path_exists = \<lambda>p. True,
         read_json = \<lambda>p. Inr (JList ?entries),
         write_json = \<lambda>p w. None,
         load_dataset = \<lambda>db sub. Inl (OtherError ''offline'')\<rparr>"
  let ?a = "\<lparr>database = None, output = ''input.json'', label_arg = ''L'',
         change_label_arg = Some ''X'', video_column_arg = ''video'', label_column_arg = None,
         split_arg = ''train'', subset = None, streaming = False, max_items_arg = None\<rparr>"
  from label_rewriter_frame [of ?entries "''X''" ?a ?env]
  obtain entries' where
    r: "rewrite_labels (JList ?entries) ''X'' = Inr (JList entries')"
    and m: "change_label_arg ?a = Some ''X'' \<and> ''X'' \<noteq> [] \<and> path_exists ?env (output ?a) \<and>
       read_json ?env (output ?a) = Inr (JList ?entries) \<and>
       write_json ?env (output ?a) (Rewritten (JList entries')) = None \<longrightarrow>
         main ?env ?a = (Some 0, Some (Rewritten (JList entries')))"
    by blast
  have "rewrite_labels (JList ?entries) ''X'' =
          Inr (JList [JObj [(''video'', JStr ''a.mp4''), (''label'', JStr ''X'')],
               JObj [(''video'', JStr ''b.mp4'')],
               JStr ''note''])"
    by (simp add: rewrite_labels_def rewrite_item_def)
  with r have e: "entries' = [JObj [(''video'', JStr ''a.mp4''), (''label'', JStr ''X'')],
               JObj [(''video'', JStr ''b.mp4'')],
               JStr ''note'']"
    by simp
  from m have "main ?env ?a = (Some 0, Some (Rewritten (JList entries')))"
    by simp
  with r e show ?thesis by simp
qed

text \<open>
  The path of \<open>main\<close> that builds and writes a manifest falls off the end of the
  function: it returns \<open>None\<close>.
\<close>

lemma main_success_path:
  assumes "\<not> (str_truthy (change_label_arg a) \<and> path_exists env (output a))"
    and "database a = Some db" and "db \<noteq> []"
    and "load_dataset env db (subset a) = Inr dataset"
    and "extract_videos_from_dataset dataset db (video_column_arg a) (label_column_arg a)
           (split_arg a) (max_items_arg a) (label_arg a) (change_label_arg a) =
         (out, Inr json_data)"
    and "json_data \<noteq> []"
    and "write_json env (output a) (Manifest json_data) = None"
  shows "main env a = (None, Some (Manifest json_data))"
proof -
  have "(if str_truthy (change_label_arg a) \<and> path_exists env (output a)
         then change_label_arg a else None) = None"
    using assms(1) by auto
  moreover have "(if str_truthy (database a) then database a else None) = Some db"
    using assms(2,3) by (simp add: str_truthy_def)
  ultimately show ?thesis
    using assms(4-7) by (simp add: main_def)
qed

text \<open>
  Claim C6 says that \<open>main\<close> returns 0 on the successful build-and-write path. On a
  dataset with one record whose video is a URL, with a working loader and a writable
  output file, \<open>main\<close> writes the manifest and returns \<open>None\<close>, not 0: the \<open>return 0\<close>
  of the Label Rewriter path has no counterpart at the end of the \<open>try\<close>.
\<close>

theorem main_success_returns_none:
  "main \<lparr>path_exists = \<lambda>p. False,
         read_json = \<lambda>p. Inl (FileNotFoundError p),
         write_json = \<lambda>p w. None,
         load_dataset = \<lambda>db sub. Inr (Dataset \<lparr>column_names = None, has_len = False,
                          items = [[(''video'', PStr ''http://h/a.mp4'')]]\<rparr>)\<rparr>
        \<lparr>database = Some ''alice/myset'', output = ''input.json'', label_arg = ''L'',
         change_label_arg = None, video_column_arg = ''video'', label_column_arg = None,
         split_arg = ''train'', subset = None, streaming = False, max_items_arg = None\<rparr> =
   (None, Some (Manifest [\<lparr>video = PStr ''http://h/a.mp4'', label = ''L''\<rparr>]))"
  by (simp add: main_def str_truthy_def extract_videos_from_dataset_def select_split_def
        check_columns_def use_label_of_def limit_reached_def process_item_def
        get_video_url_from_hf_def is_url_str_def is_url_def item_label_def)

section \<open>Properties of directory mode\<close>

text \<open>
  Claim C9. For a directory that exists, \<open>find_video_files\<close> returns a list that has,
  counted with multiplicity, exactly the paths of the children that are regular files
  and whose suffix, lower-cased, is in \<open>VIDEO_EXTENSIONS\<close>; the list is sorted in the
  lexicographic order of strings; and \<open>create_json_input\<close> makes one entry per path, in
  that order, each with the supplied label.
\<close>

theorem directory_manifest:
  assumes "fs directory = Directory children"
  shows "\<exists>files. find_video_files fs directory = Inr files \<and>
           mset files =
             mset (map path (filter (\<lambda>e. is_file e \<and>
                                         lower (suffix (path e)) \<in> VIDEO_EXTENSIONS) children)) \<and>
           sorted files \<and>
           map video (create_json_input files l) = map PStr files \<and>
           map label (create_json_input files l) = replicate (length files) l"
proof -
  have "is_video = (\<lambda>e. is_file e \<and> lower (suffix (path e)) \<in> VIDEO_EXTENSIONS)"
    by (simp add: fun_eq_iff is_video_def)
  then show ?thesis
    using assms
    by (simp add: find_video_files_def create_json_input_def comp_def map_replicate_const)
qed

theorem directory_manifest_witness:
  "find_video_files
     (\<lambda>d. if d = ''/videos''
          then Directory [\<lparr>path = ''/videos/b.MP4'', is_file = True\<rparr>,
                          \<lparr>path = ''/videos/notes.txt'', is_file = True\<rparr>,
                          \<lparr>path = ''/videos/old.mp4'', is_file = False\<rparr>,
                          \<lparr>path = ''/videos/a.mkv'', is_file = True\<rparr>]
          else Missing) ''/videos'' = Inr [''/videos/a.mkv'', ''/videos/b.MP4''] \<and>
   create_json_input [''/videos/a.mkv'', ''/videos/b.MP4''] ''L'' =
     [\<lparr>video = PStr ''/videos/a.mkv'', label = ''L''\<rparr>,
      \<lparr>video = PStr ''/videos/b.MP4'', label = ''L''\<rparr>]"
proof -
  let ?children = "[\<lparr>path = ''/videos/b.MP4'', is_file = True\<rparr>,
                          \<lparr>path = ''/videos/notes.txt'', is_file = True\<rparr>,
                          \<lparr>path = ''/videos/old.mp4'', is_file = False\<rparr>,
                          \<lparr>path = ''/videos/a.mkv'', is_file = True\<rparr>]"
  let ?fs = "\<lambda>d. if d = ''/videos'' then Directory ?children else Missing"
  have d: "?fs ''/videos'' = Directory ?children" by simp
  from directory_manifest [of ?fs "''/videos''" ?children "''L''", OF d]
  obtain files where f: "find_video_files ?fs ''/videos'' = Inr files"
    and m: "mset files =
             mset (map path (filter (\<lambda>e. is_file e \<and>
                                         lower (suffix (path e)) \<in> VIDEO_EXTENSIONS) ?children))"
    and s: "sorted files"
    by blast
  have "find_video_files ?fs ''/videos'' = Inr [''/videos/a.mkv'', ''/videos/b.MP4'']"
    by code_simp
  with f have "files = [''/videos/a.mkv'', ''/videos/b.MP4'']"
    by simp
  with f show ?thesis by (simp add: create_json_input_def)
qed

end
